theory Spec2Isabelle
  imports Complex_Main "HOL-Library.Multiset"
begin

section \<open>Shared types\<close>

text \<open>
  The capture package works on values of the Chrome DevTools Protocol bindings. Only the
  fields the package reads are kept. Identifiers and resource types are Go string types;
  \<open>time.Time\<close> is an abstract instant (formatting it as RFC 3339 text is left out);
  \<open>float64\<close> millisecond offsets are exact reals (rounding and NaN are not modelled).
\<close>

type_synonym RequestID = string
type_synonym ResourceType = string
type_synonym Time = nat

definition ResourceTypeDocument :: ResourceType where
  "ResourceTypeDocument = ''Document''"

text \<open>
  \<open>network.Headers\<close> is \<open>map[string]any\<close>. A value is a string or, as \<open>headersToHAR\<close>
  tests for, a \<open>[]string\<close>. Go ranges over a map in an unspecified order: the map is an
  association list and the list order stands for the order the runtime happens to take.
\<close>

datatype hvalue = VString string | VStrings "string list"

type_synonym Headers = "(string \<times> hvalue) list"

fun join_space :: "string list \<Rightarrow> string" where
  "join_space [] = []"
| "join_space [x] = x"
| "join_space (x # y # ys) = x @ '' '' @ join_space (y # ys)"

text \<open>\<open>fmt.Sprint\<close> on a header value: a string prints as itself, a slice as \<open>[a b c]\<close>.\<close>

fun Sprint :: "hvalue \<Rightarrow> string" where
  "Sprint (VString s) = s"
| "Sprint (VStrings xs) = ''['' @ join_space xs @ '']''"

record ResourceTiming =
  DNSStart :: real
  DNSEnd :: real
  ConnectStart :: real
  ConnectEnd :: real
  SslStart :: real
  SslEnd :: real
  SendStart :: real
  SendEnd :: real
  ReceiveHeadersStart :: real
  ReceiveHeadersEnd :: real

record Response =
  Protocol :: string
  Status :: int
  StatusText :: string
  resp_Headers :: Headers
  MimeType :: string
  Timing :: "ResourceTiming option"

record EventResponseReceived =
  RequestID :: RequestID
  Response :: Response

section \<open>events.go: the request store\<close>

text \<open>The field \<open>method\<close> of a pending request is \<open>http_method\<close> here.\<close>

record pendingRequest =
  requestID :: RequestID
  http_method :: string
  url :: string
  headers :: Headers
  wallTime :: Time
  resourceType :: ResourceType
  pageRef :: string

record completedEntry =
  request :: pendingRequest
  response :: EventResponseReceived

text \<open>The store is its \<open>pending\<close> map; the mutex serialises the calls, which the model runs one by one.\<close>

type_synonym requestStore = "RequestID \<rightharpoonup> pendingRequest"

definition newRequestStore :: requestStore where
  "newRequestStore = Map.empty"

definition addRequest :: "requestStore \<Rightarrow> pendingRequest \<Rightarrow> requestStore" where
  "addRequest s r = s(requestID r \<mapsto> r)"

text \<open>\<open>correlate\<close> returns the entry and \<open>true\<close> as \<open>Some\<close>, the zero entry and \<open>false\<close> as \<open>None\<close>.\<close>

definition correlate ::
  "requestStore \<Rightarrow> EventResponseReceived \<Rightarrow> completedEntry option \<times> requestStore" where
  "correlate s ev =
     (case s (RequestID ev) of
        None \<Rightarrow> (None, s)
      | Some req \<Rightarrow> (Some \<lparr>request = req, response = ev\<rparr>, s(RequestID ev := None)))"

text \<open>A sequence of calls on one store, with the entries the successful correlations return.\<close>

datatype store_call = AddRequest pendingRequest | Correlate EventResponseReceived

fun run_calls :: "requestStore \<Rightarrow> store_call list \<Rightarrow> completedEntry list \<times> requestStore" where
  "run_calls s [] = ([], s)"
| "run_calls s (AddRequest r # cs) = run_calls (addRequest s r) cs"
| "run_calls s (Correlate ev # cs) =
     (case correlate s ev of
        (None, s') \<Rightarrow> run_calls s' cs
      | (Some e, s') \<Rightarrow> (case run_calls s' cs of (es, s'') \<Rightarrow> (e # es, s'')))"

fun registrations :: "RequestID \<Rightarrow> store_call list \<Rightarrow> nat" where
  "registrations i [] = 0"
| "registrations i (AddRequest r # cs) = (if requestID r = i then 1 else 0) + registrations i cs"
| "registrations i (Correlate ev # cs) = registrations i cs"

definition matched :: "RequestID \<Rightarrow> completedEntry list \<Rightarrow> nat" where
  "matched i es = length (filter (\<lambda>e. RequestID (response e) = i) es)"

section \<open>har.go: the archive assembler\<close>

record Timings =
  Blocked :: real
  DNS :: real
  Connect :: real
  Ssl :: real
  Send :: real
  Wait :: real
  Receive :: real

definition phaseOrBlocked :: "real \<Rightarrow> real \<Rightarrow> real" where
  "phaseOrBlocked start end' = (if start < 0 \<or> end' < 0 then -1 else end' - start)"

text \<open>A nil timing gives a literal that sets three fields; the others keep Go's zero value.\<close>

definition buildTimings :: "ResourceTiming option \<Rightarrow> Timings" where
  "buildTimings t' =
     (case t' of
        None \<Rightarrow> \<lparr>Blocked = 0, DNS = 0, Connect = 0, Ssl = 0, Send = -1, Wait = -1, Receive = -1\<rparr>
      | Some t \<Rightarrow>
          (let dns = phaseOrBlocked (DNSStart t) (DNSEnd t);
               connect = phaseOrBlocked (ConnectStart t) (ConnectEnd t);
               ssl = phaseOrBlocked (SslStart t) (SslEnd t);
               send = phaseOrBlocked (SendStart t) (SendEnd t);
               wait = (if SendEnd t \<ge> 0 \<and> ReceiveHeadersEnd t \<ge> 0
                       then ReceiveHeadersEnd t - SendEnd t else -1)
           in \<lparr>Blocked = -1, DNS = dns, Connect = connect, Ssl = ssl, Send = send,
               Wait = wait, Receive = -1\<rparr>))"

fun sum_positive :: "real \<Rightarrow> real list \<Rightarrow> real" where
  "sum_positive tot [] = tot"
| "sum_positive tot (v # vs) = sum_positive (if v > 0 then tot + v else tot) vs"

definition totalTime :: "Timings \<Rightarrow> real" where
  "totalTime t = sum_positive 0 [Blocked t, DNS t, Connect t, Send t, Wait t, Receive t]"

fun redirectURL :: "Headers \<Rightarrow> string" where
  "redirectURL [] = ''''"
| "redirectURL ((k, v) # rest) =
     (if k = ''Location'' \<or> k = ''location'' then Sprint v else redirectURL rest)"

record NameValuePair =
  Name :: string
  Value :: string

fun headersToHAR :: "Headers \<Rightarrow> NameValuePair list" where
  "headersToHAR [] = []"
| "headersToHAR ((name, VStrings arr) # rest) =
     map (\<lambda>v. \<lparr>Name = name, Value = v\<rparr>) arr @ headersToHAR rest"
| "headersToHAR ((name, v) # rest) = \<lparr>Name = name, Value = Sprint v\<rparr> # headersToHAR rest"

record har_Request =
  req_Method :: string
  req_URL :: string
  req_HTTPVersion :: string
  req_Headers :: "NameValuePair list"
  req_HeadersSize :: int
  req_BodySize :: int

record har_Content =
  content_MimeType :: string
  content_Size :: int

record har_Response =
  res_Status :: int
  res_StatusText :: string
  res_HTTPVersion :: string
  res_Headers :: "NameValuePair list"
  res_Content :: har_Content
  RedirectURL :: string
  res_HeadersSize :: int
  res_BodySize :: int

record Entry =
  Pageref :: string
  StartedDateTime :: Time
  entry_Request :: har_Request
  entry_Response :: har_Response
  entry_Timings :: Timings
  entry_Time :: real

text \<open>The query string and the cookie lists of an entry are always empty and are left out.\<close>

definition buildEntry :: "completedEntry \<Rightarrow> Entry" where
  "buildEntry e =
     (let req = request e;
          resp = Response (response e);
          timings = buildTimings (Timing resp)
      in \<lparr>Pageref = pageRef req,
          StartedDateTime = wallTime req,
          entry_Request = \<lparr>req_Method = http_method req, req_URL = url req,
             req_HTTPVersion = Protocol resp, req_Headers = headersToHAR (headers req),
             req_HeadersSize = -1, req_BodySize = -1\<rparr>,
          entry_Response = \<lparr>res_Status = Status resp, res_StatusText = StatusText resp,
             res_HTTPVersion = Protocol resp, res_Headers = headersToHAR (resp_Headers resp),
             res_Content = \<lparr>content_MimeType = MimeType resp, content_Size = 0\<rparr>,
             RedirectURL = redirectURL (resp_Headers resp),
             res_HeadersSize = -1, res_BodySize = -1\<rparr>,
          entry_Timings = timings,
          entry_Time = totalTime timings\<rparr>)"

record Page =
  page_ID :: string
  page_StartedDateTime :: Time
  Title :: string

record Creator =
  creator_Name :: string
  creator_Version :: string

record Log =
  Version :: string
  Browser :: Creator
  log_Creator :: Creator
  Pages :: "Page list"
  Entries :: "Entry list"

record HAR =
  Log :: Log

definition assembleHAR :: "Page list \<Rightarrow> completedEntry list \<Rightarrow> string \<Rightarrow> HAR" where
  "assembleHAR pages entries browserVersion =
     \<lparr>Log = \<lparr>Version = ''1.2'',
              Browser = \<lparr>creator_Name = ''Google Chrome'', creator_Version = browserVersion\<rparr>,
              log_Creator = \<lparr>creator_Name = ''har-capture'', creator_Version = ''0.1.0''\<rparr>,
              Pages = pages,
              Entries = map buildEntry entries\<rparr>\<rparr>"

section \<open>Errors\<close>

text \<open>
  Go error values: the two context sentinels, an error made from a message, and an error
  that wraps another one behind a prefix (\<open>fmt.Errorf\<close> with \<open>%w\<close>). \<open>errors.Is\<close> walks
  the chain of wrapped errors.
\<close>

datatype go_error = DeadlineExceeded | Canceled | ErrorString string | Wrapped string go_error

fun errors_Is :: "go_error \<Rightarrow> go_error \<Rightarrow> bool" where
  "errors_Is (Wrapped p e) target = (Wrapped p e = target \<or> errors_Is e target)"
| "errors_Is e target = (e = target)"

fun Error_text :: "go_error \<Rightarrow> string" where
  "Error_text DeadlineExceeded = ''context deadline exceeded''"
| "Error_text Canceled = ''context canceled''"
| "Error_text (ErrorString s) = s"
| "Error_text (Wrapped p e) = p @ Error_text e"

definition isTimeoutError :: "go_error \<Rightarrow> bool" where
  "isTimeoutError err = (errors_Is err DeadlineExceeded \<or> errors_Is err Canceled)"

datatype failure = Panic string | Err go_error

section \<open>The event collector\<close>

text \<open>
  \<open>onceCloser\<close> holds the channel it closes (\<open>ch_closed\<close>: whether it is closed) and
  its \<open>done\<close> flag (\<open>once_done\<close>). The collector's \<open>doneCh\<close> is that
  same channel, so its state is kept once, in the closer. Closing a closed channel panics.
\<close>

record onceCloser =
  ch_closed :: bool
  once_done :: bool

definition close :: "onceCloser \<Rightarrow> failure + onceCloser" where
  "close o' =
     (if \<not> once_done o' then
        (if ch_closed o' then Inl (Panic ''close of closed channel'')
         else Inr (o'\<lparr>once_done := True, ch_closed := True\<rparr>))
      else Inr o')"

datatype coll_event = EvPage Page | EvEntry completedEntry

text \<open>
  \<open>resultCh\<close> is a buffered channel of capacity 64: \<open>resultCh\<close> is its buffer and \<open>sendq\<close>
  the values of senders parked on a full buffer. Only \<open>har.Page\<close> and \<open>completedEntry\<close>
  values are ever sent.
\<close>

record collector =
  resultCh :: "coll_event list"
  sendq :: "coll_event list"
  doneOnce :: onceCloser

definition doneCh :: "collector \<Rightarrow> bool" where
  "doneCh c = ch_closed (doneOnce c)"

definition newCollector :: collector where
  "newCollector = \<lparr>resultCh = [], sendq = [], doneOnce = \<lparr>ch_closed = False, once_done = False\<rparr>\<rparr>"

definition send :: "collector \<Rightarrow> coll_event \<Rightarrow> collector" where
  "send c v =
     (if length (resultCh c) < 64 then c\<lparr>resultCh := resultCh c @ [v]\<rparr>
      else c\<lparr>sendq := sendq c @ [v]\<rparr>)"

definition markDone :: "collector \<Rightarrow> failure + collector" where
  "markDone c = (case close (doneOnce c) of Inl p \<Rightarrow> Inl p | Inr o' \<Rightarrow> Inr (c\<lparr>doneOnce := o'\<rparr>))"

text \<open>
  A receive takes the head of the buffer; a parked sender then puts its value at the tail.
  On an empty buffer the receive would block (\<open>None\<close>).
\<close>

definition recv :: "collector \<Rightarrow> (coll_event \<times> collector) option" where
  "recv c =
     (case resultCh c of
        [] \<Rightarrow> None
      | v # vs \<Rightarrow>
          (case sendq c of
             [] \<Rightarrow> Some (v, c\<lparr>resultCh := vs\<rparr>)
           | w # ws \<Rightarrow> Some (v, c\<lparr>resultCh := vs @ [w], sendq := ws\<rparr>)))"

definition accumulate ::
  "coll_event \<Rightarrow> Page list \<times> completedEntry list \<Rightarrow> Page list \<times> completedEntry list" where
  "accumulate data acc =
     (case data of
        EvPage d \<Rightarrow> (fst acc @ [d], snd acc)
      | EvEntry d \<Rightarrow> (fst acc, snd acc @ [d]))"

function drain ::
  "collector \<Rightarrow> Page list \<times> completedEntry list
     \<Rightarrow> (Page list \<times> completedEntry list) \<times> collector" where
  "drain c acc =
     (if length (resultCh c) > 0 then
        (case recv c of
           None \<Rightarrow> (acc, c)
         | Some (v, c') \<Rightarrow> drain c' (accumulate v acc))
      else (acc, c))"
  by pat_completeness auto
termination
  by (relation "measure (\<lambda>(c, acc). length (resultCh c) + length (sendq c))")
     (auto simp: recv_def split: list.splits)

declare drain.simps [simp del]

text \<open>
  The \<open>select\<close> of \<open>wait\<close>: with one channel ready its case runs, with both ready the
  runtime picks one (\<open>pick\<close>), with none ready the goroutine blocks (\<open>None\<close>).
\<close>

datatype wake = DoneClosed | CtxDone

definition select_ready :: "bool \<Rightarrow> bool \<Rightarrow> wake \<Rightarrow> wake option" where
  "select_ready done_closed ctx_done pick =
     (if done_closed \<and> ctx_done then Some pick
      else if done_closed then Some DoneClosed
      else if ctx_done then Some CtxDone
      else None)"

definition wait_woken ::
  "collector \<Rightarrow> wake \<Rightarrow> (Page list \<times> completedEntry list \<times> bool) \<times> collector" where
  "wait_woken c w =
     (let timedOut = (case w of DoneClosed \<Rightarrow> False | CtxDone \<Rightarrow> True);
          (acc, c') = drain c ([], [])
      in ((fst acc, snd acc, timedOut), c'))"

definition wait ::
  "collector \<Rightarrow> bool \<Rightarrow> wake
     \<Rightarrow> ((Page list \<times> completedEntry list \<times> bool) \<times> collector) option" where
  "wait c ctx_done pick = map_option (wait_woken c) (select_ready (doneCh c) ctx_done pick)"

section \<open>The screenshot collector\<close>

datatype LifecycleStage = StageDocumentLoad | StageFirstContentfulPaint | StageNetworkIdle

fun stage_name :: "LifecycleStage \<Rightarrow> string" where
  "stage_name StageDocumentLoad = ''load''"
| "stage_name StageFirstContentfulPaint = ''firstContentfulPaint''"
| "stage_name StageNetworkIdle = ''networkIdle''"

fun lifecycleOrder :: "LifecycleStage \<Rightarrow> int" where
  "lifecycleOrder StageDocumentLoad = 0"
| "lifecycleOrder StageFirstContentfulPaint = 1"
| "lifecycleOrder StageNetworkIdle = 2"

record Screenshot =
  Stage :: LifecycleStage
  CapturedAt :: Time
  PNG :: string

text \<open>
  \<open>sort.Slice\<close> belongs to Go's standard library. It is modelled by an insertion sort
  driven by the \<open>less\<close> function alone (\<open>lt\<close>): each element in turn is placed into the sorted
  prefix before the first element it is less than.
\<close>

fun insert_less :: "('a \<Rightarrow> 'a \<Rightarrow> bool) \<Rightarrow> 'a \<Rightarrow> 'a list \<Rightarrow> 'a list" where
  "insert_less lt x [] = [x]"
| "insert_less lt x (y # ys) = (if lt x y then x # y # ys else y # insert_less lt x ys)"

definition sort_Slice :: "('a \<Rightarrow> 'a \<Rightarrow> bool) \<Rightarrow> 'a list \<Rightarrow> 'a list" where
  "sort_Slice lt xs = foldl (\<lambda>sorted_prefix x. insert_less lt x sorted_prefix) [] xs"

text \<open>
  The collector's state: \<open>spawned\<close> lists the stages of the goroutines the wait group
  counts and that have not finished, \<open>results\<close> is the slice they append to.
\<close>

record screenshotCollector =
  spawned :: "LifecycleStage list"
  results :: "Screenshot list"

definition newScreenshotCollector :: screenshotCollector where
  "newScreenshotCollector = \<lparr>spawned = [], results = []\<rparr>"

definition capture :: "screenshotCollector \<Rightarrow> LifecycleStage \<Rightarrow> screenshotCollector" where
  "capture sc stage = sc\<lparr>spawned := spawned sc @ [stage]\<rparr>"

text \<open>
  The body of one capture goroutine, run when it finishes: a failed screenshot (\<open>None\<close>)
  appends nothing, a successful one appends its image with the time of the append.
\<close>

definition capture_body ::
  "screenshotCollector \<Rightarrow> LifecycleStage \<times> (Time \<times> string) option \<Rightarrow> screenshotCollector" where
  "capture_body sc fin =
     (case snd fin of
        None \<Rightarrow> sc
      | Some (now, buf) \<Rightarrow>
          sc\<lparr>results := results sc @ [\<lparr>Stage = fst fin, CapturedAt = now, PNG = buf\<rparr>]\<rparr>)"

text \<open>
  \<open>wait\<close> of the screenshot collector. \<open>wg.Wait()\<close> returns once every goroutine has run:
  \<open>finished\<close> lists them in the order they complete, each with its outcome. The slice
  is then sorted in place and returned.
\<close>

definition sc_wait ::
  "screenshotCollector \<Rightarrow> (LifecycleStage \<times> (Time \<times> string) option) list
     \<Rightarrow> Screenshot list \<times> screenshotCollector" where
  "sc_wait sc finished =
     (let sc' = foldl capture_body sc finished;
          sorted_results =
            sort_Slice (\<lambda>a b. lifecycleOrder (Stage a) < lifecycleOrder (Stage b)) (results sc')
      in (sorted_results, \<lparr>spawned = [], results = sorted_results\<rparr>))"

section \<open>The capture session\<close>

record Options =
  URL :: string
  NavigationTimeout :: int
  TotalTimeout :: int
  BrowserVersion :: string
  Screenshots :: bool
  ViewportWidth :: int
  ViewportHeight :: int

record Result =
  HAR :: HAR
  TTFB :: int
  Result_Screenshots :: "Screenshot list"
  TimedOut :: bool

text \<open>Durations are nanosecond counts, as \<open>time.Duration\<close> is.\<close>

definition Millisecond :: int where
  "Millisecond = 1000000"

definition Second :: int where
  "Second = 1000000000"

text \<open>
  The conversion of the float to a duration truncates; the value converted is never
  negative, so this is the floor. Overflow of the 64-bit duration is not modelled.
\<close>

fun extractTTFB :: "completedEntry list \<Rightarrow> int" where
  "extractTTFB [] = 0"
| "extractTTFB (e # es) =
     (if resourceType (request e) \<noteq> ResourceTypeDocument then extractTTFB es
      else (case Timing (Response (response e)) of
              None \<Rightarrow> 0
            | Some t \<Rightarrow>
                (if ReceiveHeadersStart t < 0 then 0
                 else \<lfloor>ReceiveHeadersStart t * real_of_int Millisecond\<rfloor>)))"

text \<open>The protocol events the listener switches on; \<open>ev.Request\<close> is flattened into the event.\<close>

record EventRequestWillBeSent =
  rq_RequestID :: RequestID
  rq_Method :: string
  rq_URL :: string
  rq_Headers :: Headers
  WallTime :: Time
  Type :: ResourceType

datatype target_event =
    RequestWillBeSent EventRequestWillBeSent
  | ResponseReceived EventResponseReceived
  | LifecycleEvent string
  | OtherEvent

definition onRequest ::
  "EventRequestWillBeSent \<Rightarrow> requestStore \<Rightarrow> collector \<Rightarrow> requestStore \<times> collector" where
  "onRequest ev store coll =
     (let pageRef' = ''page_'' @ rq_RequestID ev;
          store' = addRequest store
            \<lparr>requestID = rq_RequestID ev, http_method = rq_Method ev, url = rq_URL ev,
             headers = rq_Headers ev, wallTime = WallTime ev, resourceType = Type ev,
             pageRef = pageRef'\<rparr>
      in if Type ev = ResourceTypeDocument
         then (store', send coll (EvPage \<lparr>page_ID = pageRef', page_StartedDateTime = WallTime ev,
                                         Title = rq_URL ev\<rparr>))
         else (store', coll))"

definition onResponse ::
  "EventResponseReceived \<Rightarrow> requestStore \<Rightarrow> collector \<Rightarrow> requestStore \<times> collector" where
  "onResponse ev store coll =
     (case correlate store ev of
        (None, store') \<Rightarrow> (store', coll)
      | (Some entry, store') \<Rightarrow> (store', send coll (EvEntry entry)))"

text \<open>
  The variables of \<open>Capture\<close> the listener closes over: \<open>store\<close>, \<open>coll\<close> and \<open>sc\<close>.
\<close>

record session =
  the_store :: requestStore
  the_coll :: collector
  the_sc :: screenshotCollector

text \<open>The function registered with \<open>chromedp.ListenTarget\<close>.\<close>

definition listener :: "Options \<Rightarrow> target_event \<Rightarrow> session \<Rightarrow> failure + session" where
  "listener opts ev st =
     (case ev of
        RequestWillBeSent e \<Rightarrow>
          (case onRequest e (the_store st) (the_coll st) of
             (s', c') \<Rightarrow> Inr (st\<lparr>the_store := s', the_coll := c'\<rparr>))
      | ResponseReceived e \<Rightarrow>
          (case onResponse e (the_store st) (the_coll st) of
             (s', c') \<Rightarrow> Inr (st\<lparr>the_store := s', the_coll := c'\<rparr>))
      | LifecycleEvent name \<Rightarrow>
          (if name = stage_name StageDocumentLoad then
             Inr (if Screenshots opts then st\<lparr>the_sc := capture (the_sc st) StageDocumentLoad\<rparr>
                  else st)
           else if name = stage_name StageFirstContentfulPaint then
             Inr (if Screenshots opts then st\<lparr>the_sc := capture (the_sc st) StageFirstContentfulPaint\<rparr>
                  else st)
           else if name = stage_name StageNetworkIdle then
             (let st' = (if Screenshots opts then st\<lparr>the_sc := capture (the_sc st) StageNetworkIdle\<rparr>
                         else st)
              in case markDone (the_coll st') of
                   Inl p \<Rightarrow> Inl p
                 | Inr c' \<Rightarrow> Inr (st'\<lparr>the_coll := c'\<rparr>))
           else Inr st)
      | OtherEvent \<Rightarrow> Inr st)"

text \<open>
  The transport calls the listener synchronously, one event after the other. A send on a
  full buffer parks that goroutine as the last action of a callback; the events behind it
  are not delivered before the collector is drained.
\<close>

fun deliver :: "Options \<Rightarrow> session \<Rightarrow> target_event list \<Rightarrow> failure + session" where
  "deliver opts st [] = Inr st"
| "deliver opts st (ev # evs) =
     (if sendq (the_coll st) \<noteq> [] then Inr st
      else (case listener opts ev st of
              Inl p \<Rightarrow> Inl p
            | Inr st' \<Rightarrow> deliver opts st' evs))"

text \<open>
  What the browser and the Go scheduler do in one run, as far as \<open>Capture\<close> observes it:
  the events delivered while the navigation command runs and its error, the events
  delivered after it and before the \<open>select\<close> of \<open>wait\<close> fires, whether the total context
  is done by then and which case a \<open>select\<close> with both ready takes, and for the k-th
  screenshot goroutine its image (\<open>None\<close> if the screenshot fails) and the instant it
  finishes. The run depends on what \<open>Capture\<close> asks of the browser.
\<close>

record nav_request =
  req_navTimeout :: int
  req_totalTimeout :: int
  req_viewportWidth :: int
  req_viewportHeight :: int
  req_url :: string

record browser_run =
  nav_events :: "target_event list"
  nav_result :: "go_error option"
  wait_events :: "target_event list"
  ctx_done :: bool
  select_pick :: wake
  shot_png :: "nat \<Rightarrow> string option"
  shot_done_at :: "nat \<Rightarrow> Time"

type_synonym browser = "nav_request \<Rightarrow> browser_run"

text \<open>The screenshot goroutines in the order they finish, ties in the order they were spawned.\<close>

definition finished_captures ::
  "browser_run \<Rightarrow> screenshotCollector \<Rightarrow> (LifecycleStage \<times> (Time \<times> string) option) list" where
  "finished_captures run sc =
     map (\<lambda>k. (spawned sc ! k, map_option (\<lambda>png. (shot_done_at run k, png)) (shot_png run k)))
         (sort_key (shot_done_at run) [0..<length (spawned sc)])"

text \<open>
  \<open>Capture\<close> from the call of \<open>coll.wait\<close> on. A \<open>select\<close> with no channel ready stays
  blocked until the total context, which carries a deadline, is done.
\<close>

definition Capture_collect ::
  "Options \<Rightarrow> browser_run \<Rightarrow> string \<Rightarrow> session \<Rightarrow> bool \<Rightarrow> failure + Result" where
  "Capture_collect opts run browserVersion st timedOut =
     (case deliver opts st (wait_events run) of
        Inl p \<Rightarrow> Inl p
      | Inr st' \<Rightarrow>
          (let ((pages, completedEntries, collTimedOut), coll') =
                 (case wait (the_coll st') (ctx_done run) (select_pick run) of
                    Some r \<Rightarrow> r
                  | None \<Rightarrow> wait_woken (the_coll st') CtxDone);
               timedOut' = (timedOut \<or> collTimedOut);
               sc' = (if Screenshots opts \<and> timedOut' then capture (the_sc st') StageNetworkIdle
                      else the_sc st');
               screenshots = fst (sc_wait sc' (finished_captures run sc'))
           in Inr \<lparr>HAR = assembleHAR pages completedEntries browserVersion,
                   TTFB = extractTTFB completedEntries,
                   Result_Screenshots = screenshots,
                   TimedOut = timedOut'\<rparr>))"

text \<open>
  What \<open>Capture\<close> asks of the browser: the two timeouts (ten and thirty seconds when the
  option is zero), the viewport (1920 by 1080 when either dimension is zero) and the URL.
\<close>

definition Capture_request :: "Options \<Rightarrow> nav_request" where
  "Capture_request opts =
     (let navTimeout = (if NavigationTimeout opts = 0 then 10 * Second
                        else NavigationTimeout opts);
          totalTimeout = (if TotalTimeout opts = 0 then 30 * Second else TotalTimeout opts);
          (viewportWidth, viewportHeight) =
            (if ViewportWidth opts = 0 \<or> ViewportHeight opts = 0 then (1920, 1080)
             else (ViewportWidth opts, ViewportHeight opts))
      in \<lparr>req_navTimeout = navTimeout, req_totalTimeout = totalTimeout,
          req_viewportWidth = viewportWidth, req_viewportHeight = viewportHeight,
          req_url = URL opts\<rparr>)"

definition new_session :: session where
  "new_session =
     \<lparr>the_store = newRequestStore, the_coll = newCollector, the_sc = newScreenshotCollector\<rparr>"

definition Capture :: "browser \<Rightarrow> Options \<Rightarrow> failure + Result" where
  "Capture browser opts =
     (if URL opts = '''' then Inl (Err (ErrorString ''capture: URL must not be empty''))
      else
        (let browserVersion = (if BrowserVersion opts = '''' then ''unknown''
                               else BrowserVersion opts);
             run = browser (Capture_request opts)
         in case deliver opts new_session (nav_events run) of
              Inl p \<Rightarrow> Inl p
            | Inr st \<Rightarrow>
                (case nav_result run of
                   Some err \<Rightarrow>
                     (if \<not> isTimeoutError err
                      then Inl (Err (Wrapped ''capture: navigation failed: '' err))
                      else Capture_collect opts run browserVersion st True)
                 | None \<Rightarrow> Capture_collect opts run browserVersion st False)))"

text \<open>The listener's state at the moment \<open>coll.wait\<close> selects: every event of the run delivered.\<close>

definition session_at_wait :: "Options \<Rightarrow> browser_run \<Rightarrow> failure + session" where
  "session_at_wait opts run =
     (case deliver opts new_session (nav_events run) of
        Inl p \<Rightarrow> Inl p
      | Inr st \<Rightarrow> deliver opts st (wait_events run))"

section \<open>The operation store\<close>

datatype Status = StatusPending | StatusRunning | StatusComplete | StatusFailed

record Artefact =
  art_Name :: string
  SignedURL :: string
  ExpiresAt :: Time

record Operation =
  ID :: string
  op_Status :: Status
  op_URL :: string
  CreatedAt :: Time
  UpdatedAt :: Time
  op_TTFB :: int
  op_TimedOut :: bool
  Artefacts :: "Artefact list"
  Error :: string

text \<open>
  The store is its \<open>ops\<close> map. The Go map holds pointers and the store reaches every
  operation through the map only, so the model keeps the operations in the map itself.
  The lock serialises the calls. The fresh identifier and the readings of the clock are
  arguments.
\<close>

type_synonym MemoryStore = "string \<rightharpoonup> Operation"

definition NewMemoryStore :: MemoryStore where
  "NewMemoryStore = Map.empty"

definition Create ::
  "MemoryStore \<Rightarrow> string \<Rightarrow> Time \<Rightarrow> Time \<Rightarrow> string \<Rightarrow> Operation \<times> MemoryStore" where
  "Create s uuid created updated url' =
     (let op = \<lparr>ID = uuid, op_Status = StatusPending, op_URL = url', CreatedAt = created,
                UpdatedAt = updated, op_TTFB = 0, op_TimedOut = False, Artefacts = [],
                Error = ''''\<rparr>
      in (op, s(ID op \<mapsto> op)))"

text \<open>The \<open>%q\<close> verb puts the identifier in double quotes (escapes are not modelled).\<close>

definition not_found :: "string \<Rightarrow> go_error" where
  "not_found id' = ErrorString (''operation '' @ [CHR 0x22] @ id' @ [CHR 0x22] @ '' not found'')"

definition Get :: "MemoryStore \<Rightarrow> string \<Rightarrow> go_error + Operation" where
  "Get s id' = (case s id' of None \<Rightarrow> Inl (not_found id') | Some op \<Rightarrow> Inr op)"

text \<open>A call that returns an error and mutates the store returns the error and the store.\<close>

definition update ::
  "MemoryStore \<Rightarrow> string \<Rightarrow> (Operation \<Rightarrow> Operation) \<Rightarrow> Time
     \<Rightarrow> go_error option \<times> MemoryStore" where
  "update s id' fn now =
     (case s id' of
        None \<Rightarrow> (Some (not_found id'), s)
      | Some op \<Rightarrow> (None, s(id' \<mapsto> (fn op)\<lparr>UpdatedAt := now\<rparr>)))"

definition MarkRunning :: "MemoryStore \<Rightarrow> string \<Rightarrow> Time \<Rightarrow> go_error option \<times> MemoryStore" where
  "MarkRunning s id' now = update s id' (\<lambda>op. op\<lparr>op_Status := StatusRunning\<rparr>) now"

definition MarkComplete ::
  "MemoryStore \<Rightarrow> string \<Rightarrow> int \<Rightarrow> bool \<Rightarrow> Artefact list \<Rightarrow> Time
     \<Rightarrow> go_error option \<times> MemoryStore" where
  "MarkComplete s id' ttfb timedOut artefacts now =
     update s id'
       (\<lambda>op. op\<lparr>op_Status := StatusComplete, op_TTFB := ttfb, op_TimedOut := timedOut,
                 Artefacts := artefacts\<rparr>) now"

definition MarkFailed ::
  "MemoryStore \<Rightarrow> string \<Rightarrow> go_error \<Rightarrow> Time \<Rightarrow> go_error option \<times> MemoryStore" where
  "MarkFailed s id' err now =
     update s id' (\<lambda>op. op\<lparr>op_Status := StatusFailed, Error := Error_text err\<rparr>) now"

text \<open>The edges of the lifecycle the package documentation draws.\<close>

fun forward_edge :: "Status \<Rightarrow> Status \<Rightarrow> bool" where
  "forward_edge StatusPending StatusRunning = True"
| "forward_edge StatusRunning StatusComplete = True"
| "forward_edge StatusRunning StatusFailed = True"
| "forward_edge _ _ = False"

definition status_of :: "MemoryStore \<Rightarrow> string \<Rightarrow> Status option" where
  "status_of s id' = map_option op_Status (s id')"

section \<open>The worker\<close>

record UploadRequest =
  ObjectName :: string
  Content :: string
  ContentType :: string

record UploadResult =
  up_ObjectName :: string
  up_SignedURL :: string
  up_ExpiresAt :: Time

fun decimal :: "nat \<Rightarrow> string" where
  "decimal n =
     (if n < 10 then [char_of (48 + n)] else decimal (n div 10) @ [char_of (48 + n mod 10)])"

definition fmt_02d :: "nat \<Rightarrow> string" where
  "fmt_02d n = (if n < 10 then ''0'' @ decimal n else decimal n)"

text \<open>
  What the worker gets from outside: the value \<open>capture.Capture\<close> returns, the JSON
  encoder, the uploader, and the date \<open>objectPath\<close> reads from the clock at its k-th call.
\<close>

record worker_env =
  capture_result :: "go_error + Result"
  json_Marshal :: "HAR \<Rightarrow> go_error + string"
  Upload :: "UploadRequest \<Rightarrow> go_error + UploadResult"
  date_at :: "nat \<Rightarrow> string"

definition objectPath :: "string \<Rightarrow> string \<Rightarrow> string \<Rightarrow> string" where
  "objectPath date operationID filename =
     ''operations/'' @ date @ ''/'' @ operationID @ ''/'' @ filename"

text \<open>The loop over the screenshots of \<open>uploadArtefacts\<close>; \<open>i\<close> is the index of the head.\<close>

fun upload_screenshots ::
  "worker_env \<Rightarrow> string \<Rightarrow> nat \<Rightarrow> Screenshot list \<Rightarrow> Artefact list
     \<Rightarrow> go_error + Artefact list" where
  "upload_screenshots env operationID i [] artefacts = Inr artefacts"
| "upload_screenshots env operationID i (s # ss) artefacts =
     (let name = ''screenshot_'' @ fmt_02d (i + 1) @ ''_'' @ stage_name (Stage s) @ ''.png'';
          screenshotRequest =
            \<lparr>ObjectName = objectPath (date_at env (i + 1)) operationID name,
             Content = PNG s, ContentType = ''image/png''\<rparr>
      in case Upload env screenshotRequest of
           Inl err \<Rightarrow> Inl (Wrapped (''screenshot '' @ decimal (i + 1) @ '': '') err)
         | Inr uploaded \<Rightarrow>
             upload_screenshots env operationID (i + 1) ss
               (artefacts @ [\<lparr>art_Name = ''screenshot_'' @ stage_name (Stage s),
                               SignedURL = up_SignedURL uploaded,
                               ExpiresAt = up_ExpiresAt uploaded\<rparr>]))"

definition uploadArtefacts :: "worker_env \<Rightarrow> string \<Rightarrow> Result \<Rightarrow> go_error + Artefact list" where
  "uploadArtefacts env operationID result =
     (case json_Marshal env (HAR result) of
        Inl err \<Rightarrow> Inl (Wrapped ''failed to marshal HAR: '' err)
      | Inr harJSON \<Rightarrow>
          (let harRequest =
                 \<lparr>ObjectName = objectPath (date_at env 0) operationID ''capture.har'',
                  Content = harJSON, ContentType = ''application/json''\<rparr>
           in case Upload env harRequest of
                Inl err \<Rightarrow> Inl err
              | Inr uploaded \<Rightarrow>
                  upload_screenshots env operationID 0 (Result_Screenshots result)
                    [\<lparr>art_Name = ''har'', SignedURL = up_SignedURL uploaded,
                      ExpiresAt = up_ExpiresAt uploaded\<rparr>]))"

text \<open>
  \<open>Run\<close> on the store: \<open>t1\<close> and \<open>t2\<close> are the clock readings of its two store updates.
  The errors of \<open>MarkFailed\<close> and \<open>MarkComplete\<close> are discarded, as in the source.
\<close>

definition Run :: "worker_env \<Rightarrow> string \<Rightarrow> Time \<Rightarrow> Time \<Rightarrow> MemoryStore \<Rightarrow> MemoryStore" where
  "Run env OperationID t1 t2 s =
     (case MarkRunning s OperationID t1 of
        (Some err, s') \<Rightarrow> s'
      | (None, s') \<Rightarrow>
          (case capture_result env of
             Inl err \<Rightarrow> snd (MarkFailed s' OperationID (Wrapped ''capture: '' err) t2)
           | Inr result \<Rightarrow>
               (case uploadArtefacts env OperationID result of
                  Inl err \<Rightarrow> snd (MarkFailed s' OperationID (Wrapped ''upload: '' err) t2)
                | Inr artefacts \<Rightarrow>
                    snd (MarkComplete s' OperationID (TTFB result) (TimedOut result)
                           artefacts t2))))"

section \<open>Vocabulary of the properties\<close>

text \<open>
  The total entry time as the specification words it: the sum of the phase durations
  (DNS, connect, SSL, send, wait) that are not negative.
\<close>

definition spec_totalTime :: "Timings \<Rightarrow> real" where
  "spec_totalTime t = sum_list (filter (\<lambda>v. v \<ge> 0) [DNS t, Connect t, Ssl t, Send t, Wait t])"

text \<open>
  What holds of every collector the package builds: the channel is closed exactly when
  the closer has run, and a sender is parked only on a full buffer.
\<close>

definition collector_ok :: "collector \<Rightarrow> bool" where
  "collector_ok c =
     (ch_closed (doneOnce c) = once_done (doneOnce c)
      \<and> (sendq c \<noteq> [] \<longrightarrow> 64 \<le> length (resultCh c)))"

text \<open>The pages and the entries among the events of a channel, in their order.\<close>

fun pages_of :: "coll_event list \<Rightarrow> Page list" where
  "pages_of [] = []"
| "pages_of (EvPage p # evs) = p # pages_of evs"
| "pages_of (EvEntry e # evs) = pages_of evs"

fun entries_of :: "coll_event list \<Rightarrow> completedEntry list" where
  "entries_of [] = []"
| "entries_of (EvPage p # evs) = entries_of evs"
| "entries_of (EvEntry e # evs) = e # entries_of evs"

text \<open>A sequence of calls of \<open>send\<close> and \<open>markDone\<close> on one collector; a panic ends it.\<close>

datatype coll_call = CallSend coll_event | CallMarkDone

fun coll_calls :: "collector \<Rightarrow> coll_call list \<Rightarrow> failure + collector" where
  "coll_calls c [] = Inr c"
| "coll_calls c (CallSend v # cs) = coll_calls (send c v) cs"
| "coll_calls c (CallMarkDone # cs) =
     (case markDone c of Inl p \<Rightarrow> Inl p | Inr c' \<Rightarrow> coll_calls c' cs)"

fun sent_events :: "coll_call list \<Rightarrow> coll_event list" where
  "sent_events [] = []"
| "sent_events (CallSend v # cs) = v # sent_events cs"
| "sent_events (CallMarkDone # cs) = sent_events cs"

text \<open>
  A sequence of calls on the operation store (their errors dropped), and the statuses an
  identifier shows before the first call and after each one.
\<close>

datatype op_call =
    CallCreate string Time Time string
  | CallMarkRunning string Time
  | CallMarkComplete string int bool "Artefact list" Time
  | CallMarkFailed string go_error Time

fun apply_call :: "MemoryStore \<Rightarrow> op_call \<Rightarrow> MemoryStore" where
  "apply_call s (CallCreate uuid created updated url') = snd (Create s uuid created updated url')"
| "apply_call s (CallMarkRunning id' now) = snd (MarkRunning s id' now)"
| "apply_call s (CallMarkComplete id' ttfb timedOut artefacts now) =
     snd (MarkComplete s id' ttfb timedOut artefacts now)"
| "apply_call s (CallMarkFailed id' err now) = snd (MarkFailed s id' err now)"

fun status_history :: "MemoryStore \<Rightarrow> string \<Rightarrow> op_call list \<Rightarrow> Status option list" where
  "status_history s id' [] = [status_of s id']"
| "status_history s id' (c # cs) = status_of s id' # status_history (apply_call s c) id' cs"

text \<open>Concrete inputs used below.\<close>

definition ex_timing :: ResourceTiming where
  "ex_timing =
     \<lparr>DNSStart = 0, DNSEnd = 5, ConnectStart = 5, ConnectEnd = 35, SslStart = 10, SslEnd = 30,
      SendStart = 35, SendEnd = 36, ReceiveHeadersStart = 50, ReceiveHeadersEnd = 50\<rparr>"

definition ex_response :: "Headers \<Rightarrow> ResourceTiming option \<Rightarrow> EventResponseReceived" where
  "ex_response hs t =
     \<lparr>RequestID = ''r1'',
      Response = \<lparr>Protocol = ''http/1.1'', Status = 302, StatusText = ''Found'',
                  resp_Headers = hs, MimeType = ''text/html'', Timing = t\<rparr>\<rparr>"

definition ex_request :: pendingRequest where
  "ex_request =
     \<lparr>requestID = ''r1'', http_method = ''GET'', url = ''https://example.com/'', headers = [],
      wallTime = 0, resourceType = ResourceTypeDocument, pageRef = ''page_r1''\<rparr>"

definition ex_opts :: Options where
  "ex_opts =
     \<lparr>URL = ''https://example.com/'', NavigationTimeout = 0, TotalTimeout = 0,
      BrowserVersion = '''', Screenshots = False, ViewportWidth = 800, ViewportHeight = 0\<rparr>"

text \<open>
  A run in which the navigation command ends with the error \<open>err\<close> and network-idle is
  signalled afterwards, before the total deadline.
\<close>

definition ex_run :: "go_error option \<Rightarrow> browser_run" where
  "ex_run err =
     \<lparr>nav_events = [], nav_result = err, wait_events = [LifecycleEvent ''networkIdle''],
      ctx_done = False, select_pick = DoneClosed, shot_png = (\<lambda>k. None),
      shot_done_at = (\<lambda>k. 0)\<rparr>"

definition ex_browser :: "go_error option \<Rightarrow> browser" where
  "ex_browser err req = ex_run err"

definition ex_session_idle :: session where
  "ex_session_idle =
     \<lparr>the_store = newRequestStore,
      the_coll = \<lparr>resultCh = [], sendq = [],
                   doneOnce = \<lparr>ch_closed = True, once_done = True\<rparr>\<rparr>,
      the_sc = newScreenshotCollector\<rparr>"

definition ex_operation :: "Status \<Rightarrow> Operation" where
  "ex_operation st =
     \<lparr>ID = ''op1'', op_Status = st, op_URL = ''https://example.com/'', CreatedAt = 1,
      UpdatedAt = 1, op_TTFB = 0, op_TimedOut = False, Artefacts = [], Error = ''''\<rparr>"

definition ex_worker_env :: worker_env where
  "ex_worker_env =
     \<lparr>capture_result = Inl DeadlineExceeded, json_Marshal = (\<lambda>h. Inr ''{}''),
      Upload = (\<lambda>r. Inl (ErrorString ''no bucket'')), date_at = (\<lambda>k. ''2026/01/01'')\<rparr>"

definition ex_shot :: "LifecycleStage \<Rightarrow> LifecycleStage \<times> (Time \<times> string) option" where
  "ex_shot stage = (stage, Some (0, ''png''))"

section \<open>The request store correlates at most once\<close>

lemma run_calls_matched:
  "matched i (fst (run_calls s cs)) \<le> registrations i cs + (if s i = None then 0 else 1)"
proof (induction cs arbitrary: s)
  case Nil
  then show ?case by (simp add: matched_def)
next
  case (Cons c cs)
  show ?case
  proof (cases c)
    case (AddRequest r)
    have "matched i (fst (run_calls (addRequest s r) cs))
            \<le> registrations i cs + (if addRequest s r i = None then 0 else 1)"
      by (rule Cons.IH)
    then show ?thesis using AddRequest
      by (auto simp: addRequest_def split: if_splits)
  next
    case (Correlate ev)
    show ?thesis
    proof (cases "s (RequestID ev)")
      case None
      then show ?thesis using Correlate Cons.IH [of s]
        by (simp add: correlate_def)
    next
      case (Some req)
      have ih: "matched i (fst (run_calls (s(RequestID ev := None)) cs))
            \<le> registrations i cs + (if (s(RequestID ev := None)) i = None then 0 else 1)"
        by (rule Cons.IH)
      show ?thesis using Correlate Some ih
        by (auto simp: correlate_def matched_def split: prod.splits if_splits)
    qed
  qed
qed

text \<open>
  Claim C3. \<open>correlate\<close> returns the paired entry and removes the pending request exactly
  when the identifier of the response is pending; otherwise it returns no match and
  leaves the map as it is. A second response for the identifier just consumed finds no
  match, the state of every other identifier is untouched, and in any sequence of
  \<open>addRequest\<close> and \<open>correlate\<close> calls the responses that correlate with an identifier
  are at most as many as its registrations (one more if it was pending at the start):
  a response correlates at most once between registrations.
\<close>

theorem correlate_at_most_once:
  "(case s (RequestID ev) of
      Some req \<Rightarrow>
        correlate s ev = (Some \<lparr>request = req, response = ev\<rparr>, s(RequestID ev := None))
    | None \<Rightarrow> correlate s ev = (None, s))
   \<and> (\<forall>ev'. RequestID ev' = RequestID ev \<longrightarrow> fst (correlate (snd (correlate s ev)) ev') = None)
   \<and> (\<forall>i. i \<noteq> RequestID ev \<longrightarrow> snd (correlate s ev) i = s i)
   \<and> matched i (fst (run_calls s cs)) \<le> registrations i cs + (if s i = None then 0 else 1)"
  using run_calls_matched [of i s cs]
  by (auto simp: correlate_def split: option.splits)

theorem correlate_at_most_once_witness:
  "correlate (addRequest newRequestStore ex_request) (ex_response [] None)
     = (Some \<lparr>request = ex_request, response = ex_response [] None\<rparr>, newRequestStore)
   \<and> fst (correlate (snd (correlate (addRequest newRequestStore ex_request) (ex_response [] None)))
            (ex_response [] None)) = None
   \<and> snd (correlate (addRequest newRequestStore ex_request) (ex_response [] None)) ''r2''
       = addRequest newRequestStore ex_request ''r2''
   \<and> matched ''r1'' (fst (run_calls newRequestStore
        [AddRequest ex_request, Correlate (ex_response [] None), Correlate (ex_response [] None)]))
       \<le> 1"
proof -
  have p: "addRequest newRequestStore ex_request (RequestID (ex_response [] None)) = Some ex_request"
    by (simp add: addRequest_def ex_request_def ex_response_def)
  have e: "(addRequest newRequestStore ex_request)(RequestID (ex_response [] None) := None)
             = newRequestStore"
    by (simp add: addRequest_def newRequestStore_def ex_request_def ex_response_def)
  have d: "''r2'' \<noteq> RequestID (ex_response [] None)"
    by (simp add: ex_response_def)
  have r: "registrations ''r1''
             [AddRequest ex_request, Correlate (ex_response [] None), Correlate (ex_response [] None)]
           = 1"
    by (simp add: ex_request_def)
  from correlate_at_most_once [of "addRequest newRequestStore ex_request" "ex_response [] None"
      "''r1''" "[]"] p e d
  have a: "correlate (addRequest newRequestStore ex_request) (ex_response [] None)
     = (Some \<lparr>request = ex_request, response = ex_response [] None\<rparr>, newRequestStore)
   \<and> fst (correlate (snd (correlate (addRequest newRequestStore ex_request) (ex_response [] None)))
            (ex_response [] None)) = None
   \<and> snd (correlate (addRequest newRequestStore ex_request) (ex_response [] None)) ''r2''
       = addRequest newRequestStore ex_request ''r2''"
    by auto
  from correlate_at_most_once [of newRequestStore "ex_response [] None" "''r1''"
      "[AddRequest ex_request, Correlate (ex_response [] None), Correlate (ex_response [] None)]"] r
  have b: "matched ''r1'' (fst (run_calls newRequestStore
        [AddRequest ex_request, Correlate (ex_response [] None), Correlate (ex_response [] None)]))
       \<le> 1"
    by (simp add: newRequestStore_def)
  from a b show ?thesis by blast
qed

section \<open>Timing phases and total time of an entry\<close>

lemma sum_positive_eq: "sum_positive a vs = a + sum_list (filter (\<lambda>v. v \<ge> 0) vs)"
proof (induction vs arbitrary: a)
  case Nil
  then show ?case by simp
next
  case (Cons v vs)
  then show ?case by (cases "v > 0") auto
qed

lemma entry_Timings_buildEntry:
  "entry_Timings (buildEntry e) = buildTimings (Timing (Response (response e)))"
  by (simp add: buildEntry_def Let_def)

lemma entry_Time_buildEntry:
  "entry_Time (buildEntry e) = totalTime (buildTimings (Timing (Response (response e))))"
  by (simp add: buildEntry_def Let_def)

text \<open>
  Claim C2, as the code has it. For an entry whose response carries timing data, each of
  the phases DNS, connect, SSL, send and wait (from \<open>SendEnd\<close> to \<open>ReceiveHeadersEnd\<close>) is
  \<open>-1\<close> when either raw endpoint is negative and end minus start otherwise; blocked and
  receive are always \<open>-1\<close>. The total time of every entry is the sum of the values that
  are not negative among blocked, DNS, connect, send, wait and receive: the SSL phase
  is not added.
\<close>

theorem entry_timing_phases:
  "(Timing (Response (response e)) = Some t \<longrightarrow>
      entry_Timings (buildEntry e) =
        \<lparr>Blocked = -1,
         DNS = (if DNSStart t < 0 \<or> DNSEnd t < 0 then -1 else DNSEnd t - DNSStart t),
         Connect = (if ConnectStart t < 0 \<or> ConnectEnd t < 0 then -1
                    else ConnectEnd t - ConnectStart t),
         Ssl = (if SslStart t < 0 \<or> SslEnd t < 0 then -1 else SslEnd t - SslStart t),
         Send = (if SendStart t < 0 \<or> SendEnd t < 0 then -1 else SendEnd t - SendStart t),
         Wait = (if SendEnd t < 0 \<or> ReceiveHeadersEnd t < 0 then -1
                 else ReceiveHeadersEnd t - SendEnd t),
         Receive = -1\<rparr>)
   \<and> entry_Time (buildEntry e) =
       (let T = entry_Timings (buildEntry e)
        in sum_list (filter (\<lambda>v. v \<ge> 0)
             [Blocked T, DNS T, Connect T, Send T, Wait T, Receive T]))"
proof (intro conjI impI)
  assume "Timing (Response (response e)) = Some t"
  then show "entry_Timings (buildEntry e) =
        \<lparr>Blocked = -1,
         DNS = (if DNSStart t < 0 \<or> DNSEnd t < 0 then -1 else DNSEnd t - DNSStart t),
         Connect = (if ConnectStart t < 0 \<or> ConnectEnd t < 0 then -1
                    else ConnectEnd t - ConnectStart t),
         Ssl = (if SslStart t < 0 \<or> SslEnd t < 0 then -1 else SslEnd t - SslStart t),
         Send = (if SendStart t < 0 \<or> SendEnd t < 0 then -1 else SendEnd t - SendStart t),
         Wait = (if SendEnd t < 0 \<or> ReceiveHeadersEnd t < 0 then -1
                 else ReceiveHeadersEnd t - SendEnd t),
         Receive = -1\<rparr>"
    by (simp add: entry_Timings_buildEntry buildTimings_def phaseOrBlocked_def Let_def not_le)
next
  show "entry_Time (buildEntry e) =
       (let T = entry_Timings (buildEntry e)
        in sum_list (filter (\<lambda>v. v \<ge> 0)
             [Blocked T, DNS T, Connect T, Send T, Wait T, Receive T]))"
    unfolding entry_Time_buildEntry entry_Timings_buildEntry totalTime_def sum_positive_eq Let_def
    by simp
qed

theorem entry_timing_phases_witness:
  "entry_Timings (buildEntry \<lparr>request = ex_request, response = ex_response [] (Some ex_timing)\<rparr>)
     = \<lparr>Blocked = -1, DNS = 5, Connect = 30, Ssl = 20, Send = 1, Wait = 14, Receive = -1\<rparr>
   \<and> entry_Time (buildEntry \<lparr>request = ex_request, response = ex_response [] (Some ex_timing)\<rparr>)
       = 50"
proof -
  have h: "Timing (Response (response
             \<lparr>request = ex_request, response = ex_response [] (Some ex_timing)\<rparr>)) = Some ex_timing"
    by (simp add: ex_response_def)
  from entry_timing_phases
         [of "\<lparr>request = ex_request, response = ex_response [] (Some ex_timing)\<rparr>" ex_timing] h
  show ?thesis
    by (simp add: ex_timing_def Let_def)
qed

text \<open>
  Claim C2 as stated fails on an entry with an SSL phase: with DNS 5, connect 30, SSL 20,
  send 1 and wait 14 milliseconds the total time of the entry is 50, and the sum of the
  five phases that are not negative is 70.
\<close>

theorem total_time_leaves_out_ssl:
  "entry_Time (buildEntry \<lparr>request = ex_request, response = ex_response [] (Some ex_timing)\<rparr>) = 50
   \<and> spec_totalTime (entry_Timings
         (buildEntry \<lparr>request = ex_request, response = ex_response [] (Some ex_timing)\<rparr>)) = 70"
  by (simp add: buildEntry_def buildTimings_def phaseOrBlocked_def totalTime_def
        spec_totalTime_def ex_response_def ex_timing_def Let_def)

section \<open>The redirect target\<close>

text \<open>
  Claim C8. The lookup of the redirect target compares the header name with the two
  spellings \<open>Location\<close> and \<open>location\<close> only: a response whose header is spelled
  \<open>LOCATION\<close> gets the empty redirect URL, while the lower-case spelling is found.
\<close>

theorem redirectURL_upper_case_missed:
  "redirectURL [(''LOCATION'', VString ''https://example.com/next'')] = ''''
   \<and> RedirectURL (entry_Response (buildEntry
        \<lparr>request = ex_request,
         response = ex_response [(''LOCATION'', VString ''https://example.com/next'')] None\<rparr>))
       = ''''
   \<and> redirectURL [(''location'', VString ''https://example.com/next'')]
       = ''https://example.com/next''"
  by (simp add: buildEntry_def ex_response_def Let_def)

section \<open>Unknown and known identifiers in the operation store\<close>

text \<open>
  Claim C7. For an identifier that is not in the store, \<open>Get\<close>, \<open>MarkRunning\<close>,
  \<open>MarkComplete\<close> and \<open>MarkFailed\<close> fail with the not-found error and the store stays
  exactly as it was. For a known identifier the mark operations set the status (and the
  fields of the transition) and set the update timestamp to the current time.
\<close>

theorem store_unknown_id_not_found:
  "(s id' = None \<longrightarrow>
      Get s id' = Inl (not_found id')
      \<and> MarkRunning s id' now = (Some (not_found id'), s)
      \<and> MarkComplete s id' ttfb timedOut artefacts now = (Some (not_found id'), s)
      \<and> MarkFailed s id' err now = (Some (not_found id'), s))
   \<and> (s id' = Some op \<longrightarrow>
      Get s id' = Inr op
      \<and> MarkRunning s id' now
          = (None, s(id' \<mapsto> op\<lparr>op_Status := StatusRunning, UpdatedAt := now\<rparr>))
      \<and> MarkComplete s id' ttfb timedOut artefacts now
          = (None, s(id' \<mapsto> op\<lparr>op_Status := StatusComplete, op_TTFB := ttfb,
                                op_TimedOut := timedOut, Artefacts := artefacts,
                                UpdatedAt := now\<rparr>))
      \<and> MarkFailed s id' err now
          = (None, s(id' \<mapsto> op\<lparr>op_Status := StatusFailed, Error := Error_text err,
                                UpdatedAt := now\<rparr>)))"
  by (simp add: Get_def MarkRunning_def MarkComplete_def MarkFailed_def update_def)

theorem store_unknown_id_not_found_witness:
  "MarkRunning (NewMemoryStore(''op1'' \<mapsto> ex_operation StatusPending)) ''op2'' 7
     = (Some (not_found ''op2''), NewMemoryStore(''op1'' \<mapsto> ex_operation StatusPending))
   \<and> Get (NewMemoryStore(''op1'' \<mapsto> ex_operation StatusPending)) ''op2'' = Inl (not_found ''op2'')
   \<and> MarkRunning (NewMemoryStore(''op1'' \<mapsto> ex_operation StatusPending)) ''op1'' 7
     = (None, NewMemoryStore(''op1'' \<mapsto> (ex_operation StatusRunning)\<lparr>UpdatedAt := 7\<rparr>))"
proof -
  have u: "(NewMemoryStore(''op1'' \<mapsto> ex_operation StatusPending)) ''op2'' = None"
    by (simp add: NewMemoryStore_def)
  have k: "(NewMemoryStore(''op1'' \<mapsto> ex_operation StatusPending)) ''op1''
             = Some (ex_operation StatusPending)"
    by simp
  from store_unknown_id_not_found
         [where s = "NewMemoryStore(''op1'' \<mapsto> ex_operation StatusPending)"
            and id' = "''op2''" and now = 7] u
  have a: "MarkRunning (NewMemoryStore(''op1'' \<mapsto> ex_operation StatusPending)) ''op2'' 7
     = (Some (not_found ''op2''), NewMemoryStore(''op1'' \<mapsto> ex_operation StatusPending))
   \<and> Get (NewMemoryStore(''op1'' \<mapsto> ex_operation StatusPending)) ''op2'' = Inl (not_found ''op2'')"
    by simp
  from store_unknown_id_not_found
         [where s = "NewMemoryStore(''op1'' \<mapsto> ex_operation StatusPending)"
            and id' = "''op1''" and op = "ex_operation StatusPending" and now = 7] k
  have b: "MarkRunning (NewMemoryStore(''op1'' \<mapsto> ex_operation StatusPending)) ''op1'' 7
     = (None, NewMemoryStore(''op1'' \<mapsto> (ex_operation StatusRunning)\<lparr>UpdatedAt := 7\<rparr>))"
    by (simp add: ex_operation_def)
  from a b show ?thesis by blast
qed

section \<open>Viewport defaults\<close>

lemma listener_viewport:
  "listener (opts\<lparr>ViewportWidth := w, ViewportHeight := h\<rparr>) ev st = listener opts ev st"
  by (simp add: listener_def)

lemma deliver_viewport:
  "deliver (opts\<lparr>ViewportWidth := w, ViewportHeight := h\<rparr>) st evs = deliver opts st evs"
  by (induction evs arbitrary: st) (simp_all add: listener_viewport split: sum.splits)

lemma Capture_collect_viewport:
  "Capture_collect (opts\<lparr>ViewportWidth := w, ViewportHeight := h\<rparr>) run v st b
     = Capture_collect opts run v st b"
proof -
  have S: "Screenshots (opts\<lparr>ViewportWidth := w, ViewportHeight := h\<rparr>) = Screenshots opts"
    by simp
  show ?thesis
    unfolding Capture_collect_def deliver_viewport S ..
qed

text \<open>
  Claim C9. When either viewport dimension of the options is zero, \<open>Capture\<close> asks the
  browser for 1920 by 1080: both dimensions are replaced, so a non-zero dimension given
  together with a zero one is discarded, and the capture is the one the options with
  1920 by 1080 give.
\<close>

theorem viewport_both_reset:
  assumes "ViewportWidth opts = 0 \<or> ViewportHeight opts = 0"
  shows "req_viewportWidth (Capture_request opts) = 1920
         \<and> req_viewportHeight (Capture_request opts) = 1080
         \<and> Capture browser opts
             = Capture browser (opts\<lparr>ViewportWidth := 1920, ViewportHeight := 1080\<rparr>)"
proof -
  have req: "Capture_request (opts\<lparr>ViewportWidth := 1920, ViewportHeight := 1080\<rparr>)
               = Capture_request opts"
    using assms by (simp add: Capture_request_def)
  have "Capture browser (opts\<lparr>ViewportWidth := 1920, ViewportHeight := 1080\<rparr>)
          = Capture browser opts"
    unfolding Capture_def req deliver_viewport Capture_collect_viewport by simp
  moreover have "req_viewportWidth (Capture_request opts) = 1920
         \<and> req_viewportHeight (Capture_request opts) = 1080"
    using assms by (simp add: Capture_request_def)
  ultimately show ?thesis by simp
qed

theorem viewport_both_reset_witness:
  "ViewportWidth ex_opts = 800 \<and> ViewportHeight ex_opts = 0
   \<and> req_viewportWidth (Capture_request ex_opts) = 1920
   \<and> req_viewportHeight (Capture_request ex_opts) = 1080"
proof -
  have h: "ViewportWidth ex_opts = 0 \<or> ViewportHeight ex_opts = 0"
    by (simp add: ex_opts_def)
  from viewport_both_reset [OF h] show ?thesis
    by (simp add: ex_opts_def)
qed

section \<open>The collector's channels\<close>

lemma doneOnce_send: "doneOnce (send c v) = doneOnce c"
  by (simp add: send_def)

lemma send_keeps_order:
  assumes "sendq c \<noteq> [] \<longrightarrow> 64 \<le> length (resultCh c)"
  shows "resultCh (send c v) @ sendq (send c v) = (resultCh c @ sendq c) @ [v]
         \<and> (sendq (send c v) \<noteq> [] \<longrightarrow> 64 \<le> length (resultCh (send c v)))"
  using assms by (auto simp: send_def)

lemma collector_ok_send: "collector_ok c \<Longrightarrow> collector_ok (send c v)"
  using send_keeps_order [of c v] by (simp add: collector_ok_def doneOnce_send)

lemma collector_ok_new: "collector_ok newCollector"
  by (simp add: collector_ok_def newCollector_def)

lemma markDone_guarded:
  assumes "ch_closed (doneOnce c) = once_done (doneOnce c)"
  shows "markDone c = Inr (c\<lparr>doneOnce := \<lparr>ch_closed = True, once_done = True\<rparr>\<rparr>)"
proof (cases "once_done (doneOnce c)")
  case True
  with assms have e: "\<lparr>ch_closed = True, once_done = True\<rparr> = doneOnce c"
    by simp
  from True show ?thesis unfolding e by (simp add: markDone_def close_def)
next
  case False
  with assms show ?thesis by (simp add: markDone_def close_def)
qed

lemma collector_ok_markDone:
  assumes "collector_ok c"
  shows "\<exists>c'. markDone c = Inr c' \<and> collector_ok c'"
proof -
  from assms have "markDone c = Inr (c\<lparr>doneOnce := \<lparr>ch_closed = True, once_done = True\<rparr>\<rparr>)"
    by (intro markDone_guarded) (simp add: collector_ok_def)
  moreover have "collector_ok (c\<lparr>doneOnce := \<lparr>ch_closed = True, once_done = True\<rparr>\<rparr>)"
    using assms by (simp add: collector_ok_def)
  ultimately show ?thesis by blast
qed

lemma drain_all:
  assumes "sendq c \<noteq> [] \<longrightarrow> resultCh c \<noteq> []"
  shows "drain c acc =
           ((fst acc @ pages_of (resultCh c @ sendq c), snd acc @ entries_of (resultCh c @ sendq c)),
            c\<lparr>resultCh := [], sendq := []\<rparr>)"
  using assms
proof (induction c acc rule: drain.induct)
  case (1 c acc)
  show ?case
  proof (cases "resultCh c")
    case Nil
    with "1.prems" have "sendq c = []" by simp
    with Nil show ?thesis by (simp add: drain.simps [of c acc])
  next
    case (Cons v vs)
    show ?thesis
    proof (cases "sendq c")
      case Nil
      let ?c' = "c\<lparr>resultCh := vs\<rparr>"
      have r: "recv c = Some (v, ?c')" using Cons Nil by (simp add: recv_def)
      have "drain ?c' (accumulate v acc) =
           ((fst (accumulate v acc) @ pages_of (resultCh ?c' @ sendq ?c'),
             snd (accumulate v acc) @ entries_of (resultCh ?c' @ sendq ?c')),
            ?c'\<lparr>resultCh := [], sendq := []\<rparr>)"
        using Cons Nil by (intro "1.IH" [OF _ r]) simp_all
      then show ?thesis using Cons Nil r
        by (cases v) (simp_all add: drain.simps [of c acc] accumulate_def)
    next
      case (Cons w ws)
      let ?c' = "c\<lparr>resultCh := vs @ [w], sendq := ws\<rparr>"
      have r: "recv c = Some (v, ?c')" using \<open>resultCh c = v # vs\<close> Cons by (simp add: recv_def)
      have "drain ?c' (accumulate v acc) =
           ((fst (accumulate v acc) @ pages_of (resultCh ?c' @ sendq ?c'),
             snd (accumulate v acc) @ entries_of (resultCh ?c' @ sendq ?c')),
            ?c'\<lparr>resultCh := [], sendq := []\<rparr>)"
        using \<open>resultCh c = v # vs\<close> by (intro "1.IH" [OF _ r]) simp_all
      then show ?thesis using \<open>resultCh c = v # vs\<close> Cons r
        by (cases v) (simp_all add: drain.simps [of c acc] accumulate_def)
    qed
  qed
qed

lemma wait_released:
  assumes "sendq c \<noteq> [] \<longrightarrow> resultCh c \<noteq> []"
    and "doneCh c \<or> expired"
  shows "wait c expired pick =
           Some ((pages_of (resultCh c @ sendq c), entries_of (resultCh c @ sendq c),
                  \<not> doneCh c \<or> (expired \<and> pick = CtxDone)),
                 c\<lparr>resultCh := [], sendq := []\<rparr>)"
  using assms(2)
  by (cases pick)
     (auto simp: wait_def select_ready_def wait_woken_def Let_def drain_all [OF assms(1)])

lemma wait_or_deadline:
  assumes "sendq c \<noteq> [] \<longrightarrow> resultCh c \<noteq> []"
  shows "(case wait c expired pick of Some r \<Rightarrow> r | None \<Rightarrow> wait_woken c CtxDone)
     = ((pages_of (resultCh c @ sendq c), entries_of (resultCh c @ sendq c),
         \<not> doneCh c \<or> (expired \<and> pick = CtxDone)),
        c\<lparr>resultCh := [], sendq := []\<rparr>)"
proof (cases "doneCh c \<or> expired")
  case True
  from wait_released [OF assms True] show ?thesis by simp
next
  case False
  then show ?thesis
    by (simp add: wait_def select_ready_def wait_woken_def Let_def drain_all [OF assms])
qed

section \<open>The listener never closes the completion channel twice\<close>

lemma listener_no_panic:
  assumes "collector_ok (the_coll st)"
  shows "\<exists>st'. listener opts ev st = Inr st' \<and> collector_ok (the_coll st')"
proof (cases ev)
  case (RequestWillBeSent e)
  with assms show ?thesis
    by (simp add: listener_def onRequest_def Let_def collector_ok_send)
next
  case (ResponseReceived e)
  with assms show ?thesis
    by (simp add: listener_def onResponse_def collector_ok_send
          split: prod.splits option.splits)
next
  case (LifecycleEvent name)
  from collector_ok_markDone [OF assms]
  obtain c' where "markDone (the_coll st) = Inr c'" and "collector_ok c'" by blast
  with LifecycleEvent assms show ?thesis
    by (simp add: listener_def Let_def)
next
  case OtherEvent
  with assms show ?thesis by (simp add: listener_def)
qed

lemma deliver_no_panic:
  assumes "collector_ok (the_coll st)"
  shows "\<exists>st'. deliver opts st evs = Inr st' \<and> collector_ok (the_coll st')"
  using assms
proof (induction evs arbitrary: st)
  case Nil
  then show ?case by simp
next
  case (Cons ev evs)
  show ?case
  proof (cases "sendq (the_coll st) \<noteq> []")
    case True
    with Cons.prems show ?thesis by simp
  next
    case False
    from listener_no_panic [OF Cons.prems, of opts ev]
    obtain st1 where l: "listener opts ev st = Inr st1" and i: "collector_ok (the_coll st1)"
      by blast
    from Cons.IH [OF i] False l show ?thesis by simp
  qed
qed

lemma new_session_ok: "collector_ok (the_coll new_session)"
  by (simp add: new_session_def collector_ok_new)

section \<open>The result of a capture\<close>

lemma Capture_collect_result:
  assumes "deliver opts st (wait_events run) = Inr st'"
    and "collector_ok (the_coll st')"
  shows "\<exists>r. Capture_collect opts run v st b = Inr r
           \<and> (TimedOut r \<longleftrightarrow>
                 b \<or> \<not> doneCh (the_coll st') \<or> (ctx_done run \<and> select_pick run = CtxDone))
           \<and> Pages (Log (HAR r)) = pages_of (resultCh (the_coll st') @ sendq (the_coll st'))
           \<and> Entries (Log (HAR r))
               = map buildEntry (entries_of (resultCh (the_coll st') @ sendq (the_coll st')))"
proof -
  from assms(2) have q: "sendq (the_coll st') \<noteq> [] \<longrightarrow> resultCh (the_coll st') \<noteq> []"
    by (auto simp: collector_ok_def)
  show ?thesis
    using assms(1)
    by (simp add: Capture_collect_def wait_or_deadline [OF q] Let_def assembleHAR_def)
qed

lemma Capture_result:
  assumes url: "URL opts \<noteq> ''''"
    and nav: "\<forall>err. nav_result (browser (Capture_request opts)) = Some err \<longrightarrow> isTimeoutError err"
  shows "\<exists>r st. Capture browser opts = Inr r
           \<and> session_at_wait opts (browser (Capture_request opts)) = Inr st
           \<and> (TimedOut r \<longleftrightarrow>
                 nav_result (browser (Capture_request opts)) \<noteq> None
                 \<or> \<not> doneCh (the_coll st)
                 \<or> (ctx_done (browser (Capture_request opts))
                     \<and> select_pick (browser (Capture_request opts)) = CtxDone))
           \<and> Pages (Log (HAR r)) = pages_of (resultCh (the_coll st) @ sendq (the_coll st))
           \<and> Entries (Log (HAR r))
               = map buildEntry (entries_of (resultCh (the_coll st) @ sendq (the_coll st)))"
proof -
  let ?run = "browser (Capture_request opts)"
  let ?v = "if BrowserVersion opts = '''' then ''unknown'' else BrowserVersion opts"
  from deliver_no_panic [OF new_session_ok, of opts "nav_events ?run"]
  obtain st1 where d1: "deliver opts new_session (nav_events ?run) = Inr st1"
    and i1: "collector_ok (the_coll st1)"
    by blast
  from deliver_no_panic [OF i1, of opts "wait_events ?run"]
  obtain st2 where d2: "deliver opts st1 (wait_events ?run) = Inr st2"
    and i2: "collector_ok (the_coll st2)"
    by blast
  have s: "session_at_wait opts ?run = Inr st2"
    using d1 d2 by (simp add: session_at_wait_def)
  show ?thesis
  proof (cases "nav_result ?run")
    case None
    from Capture_collect_result [OF d2 i2, of ?v False]
    obtain r where c: "Capture_collect opts ?run ?v st1 False = Inr r"
      and t: "TimedOut r \<longleftrightarrow>
                 False \<or> \<not> doneCh (the_coll st2) \<or> (ctx_done ?run \<and> select_pick ?run = CtxDone)"
      and h: "Pages (Log (HAR r)) = pages_of (resultCh (the_coll st2) @ sendq (the_coll st2))"
         "Entries (Log (HAR r))
               = map buildEntry (entries_of (resultCh (the_coll st2) @ sendq (the_coll st2)))"
      by blast
    have "Capture browser opts = Inr r"
      using url d1 None c by (simp add: Capture_def Let_def)
    with s t h None show ?thesis by simp
  next
    case (Some err)
    with nav have te: "isTimeoutError err" by simp
    from Capture_collect_result [OF d2 i2, of ?v True]
    obtain r where c: "Capture_collect opts ?run ?v st1 True = Inr r"
      and t: "TimedOut r"
      and h: "Pages (Log (HAR r)) = pages_of (resultCh (the_coll st2) @ sendq (the_coll st2))"
         "Entries (Log (HAR r))
               = map buildEntry (entries_of (resultCh (the_coll st2) @ sendq (the_coll st2)))"
      by blast
    have "Capture browser opts = Inr r"
      using url d1 Some te c by (simp add: Capture_def Let_def)
    with s t h Some show ?thesis by simp
  qed
qed

lemma Capture_error_cases:
  "(\<exists>f. Capture browser opts = Inl f) \<longleftrightarrow>
     URL opts = ''''
     \<or> (\<exists>err. nav_result (browser (Capture_request opts)) = Some err \<and> \<not> isTimeoutError err)"
proof (cases "URL opts = ''''")
  case True
  then show ?thesis by (simp add: Capture_def)
next
  case url: False
  show ?thesis
  proof (cases "\<exists>err. nav_result (browser (Capture_request opts)) = Some err \<and> \<not> isTimeoutError err")
    case True
    then obtain err where e: "nav_result (browser (Capture_request opts)) = Some err"
      and n: "\<not> isTimeoutError err" by blast
    from deliver_no_panic [OF new_session_ok, of opts "nav_events (browser (Capture_request opts))"]
    obtain st1 where "deliver opts new_session (nav_events (browser (Capture_request opts))) = Inr st1"
      by blast
    with url e n have "Capture browser opts = Inl (Err (Wrapped ''capture: navigation failed: '' err))"
      by (simp add: Capture_def Let_def)
    with True show ?thesis by blast
  next
    case False
    then have "\<forall>err. nav_result (browser (Capture_request opts)) = Some err \<longrightarrow> isTimeoutError err"
      by blast
    from Capture_result [of opts browser, OF url this] obtain r where "Capture browser opts = Inr r"
      by blast
    with url False show ?thesis by simp
  qed
qed

lemma ex_session_at_wait: "session_at_wait ex_opts (ex_run err) = Inr ex_session_idle"
  by (simp add: session_at_wait_def ex_run_def new_session_def newCollector_def listener_def
        markDone_def close_def ex_opts_def ex_session_idle_def)

lemma ex_Capture:
  "\<forall>e. err = Some e \<longrightarrow> isTimeoutError e \<Longrightarrow>
   Capture (ex_browser err) ex_opts =
     Inr \<lparr>HAR = assembleHAR [] [] ''unknown'', TTFB = 0, Result_Screenshots = [],
          TimedOut = (err \<noteq> None)\<rparr>"
  by (cases err)
     (simp_all add: Capture_def ex_browser_def ex_run_def new_session_def newCollector_def
        listener_def markDone_def close_def ex_opts_def Let_def Capture_collect_def
        wait_def select_ready_def wait_woken_def doneCh_def drain_all sc_wait_def
        finished_captures_def sort_Slice_def newScreenshotCollector_def)

section \<open>The timed-out flag of a capture\<close>

text \<open>
  Claim C1, as the code has it. A capture with a non-empty URL whose navigation does not
  fail fatally returns a result, and its \<open>TimedOut\<close> flag is set exactly when the
  navigation command ended with a deadline or cancellation error, or the wait of the
  collector was cut off by the total deadline scope: the completion signal had not
  fired, or both channels were ready and the \<open>select\<close> took the deadline. In particular
  the flag is false when the navigation returned no error, the completion signal has
  fired and the total deadline has not expired.
\<close>

theorem timed_out_flag:
  assumes "URL opts \<noteq> ''''"
    and "\<forall>err. nav_result (browser (Capture_request opts)) = Some err \<longrightarrow> isTimeoutError err"
  shows "\<exists>r st. Capture browser opts = Inr r
           \<and> session_at_wait opts (browser (Capture_request opts)) = Inr st
           \<and> (TimedOut r \<longleftrightarrow>
                 nav_result (browser (Capture_request opts)) \<noteq> None
                 \<or> \<not> doneCh (the_coll st)
                 \<or> (ctx_done (browser (Capture_request opts))
                     \<and> select_pick (browser (Capture_request opts)) = CtxDone))
           \<and> (nav_result (browser (Capture_request opts)) = None \<and> doneCh (the_coll st)
                 \<and> \<not> ctx_done (browser (Capture_request opts)) \<longrightarrow> \<not> TimedOut r)"
proof -
  from Capture_result [of opts browser, OF assms]
  obtain r st where a: "Capture browser opts = Inr r"
    and b: "session_at_wait opts (browser (Capture_request opts)) = Inr st"
    and c: "TimedOut r \<longleftrightarrow>
                 nav_result (browser (Capture_request opts)) \<noteq> None
                 \<or> \<not> doneCh (the_coll st)
                 \<or> (ctx_done (browser (Capture_request opts))
                     \<and> select_pick (browser (Capture_request opts)) = CtxDone)"
    by blast
  from c have "nav_result (browser (Capture_request opts)) = None \<and> doneCh (the_coll st)
                 \<and> \<not> ctx_done (browser (Capture_request opts)) \<longrightarrow> \<not> TimedOut r"
    by blast
  with a b c show ?thesis by blast
qed

theorem timed_out_flag_witness:
  "URL ex_opts \<noteq> '''' \<and> nav_result (ex_browser None (Capture_request ex_opts)) = None
   \<and> \<not> ctx_done (ex_browser None (Capture_request ex_opts))
   \<and> (\<exists>r st. Capture (ex_browser None) ex_opts = Inr r
         \<and> session_at_wait ex_opts (ex_browser None (Capture_request ex_opts)) = Inr st
         \<and> doneCh (the_coll st) \<and> \<not> TimedOut r)"
proof -
  have u: "URL ex_opts \<noteq> ''''" by (simp add: ex_opts_def)
  have n: "nav_result (ex_browser None (Capture_request ex_opts)) = None"
    by (simp add: ex_browser_def ex_run_def)
  have d: "\<not> ctx_done (ex_browser None (Capture_request ex_opts))"
    by (simp add: ex_browser_def ex_run_def)
  have h: "\<forall>err. nav_result (ex_browser None (Capture_request ex_opts)) = Some err
             \<longrightarrow> isTimeoutError err"
    using n by simp
  from timed_out_flag [of ex_opts "ex_browser None", OF u h]
  obtain r st where a: "Capture (ex_browser None) ex_opts = Inr r"
    and b: "session_at_wait ex_opts (ex_browser None (Capture_request ex_opts)) = Inr st"
    and c: "nav_result (ex_browser None (Capture_request ex_opts)) = None \<and> doneCh (the_coll st)
                 \<and> \<not> ctx_done (ex_browser None (Capture_request ex_opts)) \<longrightarrow> \<not> TimedOut r"
    by blast
  from b have "st = ex_session_idle"
    by (simp add: ex_browser_def ex_session_at_wait)
  then have e: "doneCh (the_coll st)"
    by (simp add: ex_session_idle_def doneCh_def)
  with c n d have "\<not> TimedOut r" by blast
  with u n d a b e show ?thesis by blast
qed

text \<open>
  Claim C1 as stated fails on a run whose navigation command hits its own deadline and
  whose page then reaches network-idle before the total deadline: at the wait the
  completion channel is closed and the total context is not done, the wait of the
  collector reports no timeout, and the result is flagged as timed out.
\<close>

theorem navigation_timeout_sets_timed_out:
  "\<not> ctx_done (ex_browser (Some DeadlineExceeded) (Capture_request ex_opts))
   \<and> session_at_wait ex_opts (ex_browser (Some DeadlineExceeded) (Capture_request ex_opts))
       = Inr ex_session_idle
   \<and> doneCh (the_coll ex_session_idle)
   \<and> map_option fst (wait (the_coll ex_session_idle) False DoneClosed) = Some ([], [], False)
   \<and> Capture (ex_browser (Some DeadlineExceeded)) ex_opts =
       Inr \<lparr>HAR = assembleHAR [] [] ''unknown'', TTFB = 0, Result_Screenshots = [],
            TimedOut = True\<rparr>"
proof -
  have "isTimeoutError DeadlineExceeded" by (simp add: isTimeoutError_def)
  then have "Capture (ex_browser (Some DeadlineExceeded)) ex_opts =
       Inr \<lparr>HAR = assembleHAR [] [] ''unknown'', TTFB = 0, Result_Screenshots = [],
            TimedOut = True\<rparr>"
    using ex_Capture [of "Some DeadlineExceeded"] by simp
  moreover have "map_option fst (wait (the_coll ex_session_idle) False DoneClosed)
                   = Some ([], [], False)"
    by (simp add: wait_def select_ready_def wait_woken_def doneCh_def ex_session_idle_def
          drain_all)
  moreover have "doneCh (the_coll ex_session_idle)"
    by (simp add: ex_session_idle_def doneCh_def)
  ultimately show ?thesis
    by (simp add: ex_browser_def ex_session_at_wait) (simp add: ex_run_def)
qed

section \<open>Cancellation during navigation\<close>

text \<open>
  Claim C10. When the navigation command ends with an error that is or wraps
  \<open>context.Canceled\<close>, \<open>Capture\<close> returns no error but a result flagged as timed out,
  whose archive holds every page and entry the collector had received when its wait
  returned. \<open>Capture\<close> returns an error only for an empty URL or for a navigation error
  that is neither a deadline expiry nor a cancellation.
\<close>

theorem cancelled_navigation_is_graceful:
  "(URL opts \<noteq> '''' \<and> nav_result (browser (Capture_request opts)) = Some err
      \<and> errors_Is err Canceled \<longrightarrow>
      (\<exists>r st. Capture browser opts = Inr r \<and> TimedOut r
         \<and> session_at_wait opts (browser (Capture_request opts)) = Inr st
         \<and> Pages (Log (HAR r)) = pages_of (resultCh (the_coll st) @ sendq (the_coll st))
         \<and> Entries (Log (HAR r))
             = map buildEntry (entries_of (resultCh (the_coll st) @ sendq (the_coll st)))))
   \<and> ((\<exists>f. Capture browser opts = Inl f) \<longleftrightarrow>
         URL opts = ''''
         \<or> (\<exists>e. nav_result (browser (Capture_request opts)) = Some e
                \<and> \<not> errors_Is e DeadlineExceeded \<and> \<not> errors_Is e Canceled))"
proof (intro conjI impI)
  assume a: "URL opts \<noteq> '''' \<and> nav_result (browser (Capture_request opts)) = Some err
      \<and> errors_Is err Canceled"
  then have "\<forall>e. nav_result (browser (Capture_request opts)) = Some e \<longrightarrow> isTimeoutError e"
    by (simp add: isTimeoutError_def)
  from Capture_result [of opts browser, OF _ this] a
  show "\<exists>r st. Capture browser opts = Inr r \<and> TimedOut r
         \<and> session_at_wait opts (browser (Capture_request opts)) = Inr st
         \<and> Pages (Log (HAR r)) = pages_of (resultCh (the_coll st) @ sendq (the_coll st))
         \<and> Entries (Log (HAR r))
             = map buildEntry (entries_of (resultCh (the_coll st) @ sendq (the_coll st)))"
    by auto
next
  show "(\<exists>f. Capture browser opts = Inl f) \<longleftrightarrow>
         URL opts = ''''
         \<or> (\<exists>e. nav_result (browser (Capture_request opts)) = Some e
                \<and> \<not> errors_Is e DeadlineExceeded \<and> \<not> errors_Is e Canceled)"
    using Capture_error_cases [of browser opts] by (simp add: isTimeoutError_def)
qed

theorem cancelled_navigation_is_graceful_witness:
  "URL ex_opts \<noteq> ''''
   \<and> nav_result (ex_browser (Some (Wrapped ''navigate: '' Canceled)) (Capture_request ex_opts))
       = Some (Wrapped ''navigate: '' Canceled)
   \<and> errors_Is (Wrapped ''navigate: '' Canceled) Canceled
   \<and> (\<exists>r. Capture (ex_browser (Some (Wrapped ''navigate: '' Canceled))) ex_opts = Inr r
          \<and> TimedOut r)"
proof -
  have u: "URL ex_opts \<noteq> ''''" by (simp add: ex_opts_def)
  have n: "nav_result (ex_browser (Some (Wrapped ''navigate: '' Canceled)) (Capture_request ex_opts))
       = Some (Wrapped ''navigate: '' Canceled)"
    by (simp add: ex_browser_def ex_run_def)
  have c: "errors_Is (Wrapped ''navigate: '' Canceled) Canceled" by simp
  from cancelled_navigation_is_graceful
         [of ex_opts "ex_browser (Some (Wrapped ''navigate: '' Canceled))"
             "Wrapped ''navigate: '' Canceled"] u n c
  have "\<exists>r. Capture (ex_browser (Some (Wrapped ''navigate: '' Canceled))) ex_opts = Inr r
          \<and> TimedOut r"
    by blast
  with u n c show ?thesis by blast
qed

section \<open>The collector's wait and its completion signal\<close>

lemma coll_calls_reach:
  assumes "ch_closed (doneOnce c0) = once_done (doneOnce c0)"
    and "sendq c0 \<noteq> [] \<longrightarrow> 64 \<le> length (resultCh c0)"
  shows "\<exists>c. coll_calls c0 calls = Inr c
           \<and> ch_closed (doneOnce c) = once_done (doneOnce c)
           \<and> (sendq c \<noteq> [] \<longrightarrow> 64 \<le> length (resultCh c))
           \<and> resultCh c @ sendq c = (resultCh c0 @ sendq c0) @ sent_events calls
           \<and> doneCh c = (doneCh c0 \<or> CallMarkDone \<in> set calls)"
  using assms
proof (induction calls arbitrary: c0)
  case Nil
  then show ?case by simp
next
  case (Cons call calls)
  show ?case
  proof (cases call)
    case (CallSend v)
    from send_keeps_order [OF Cons.prems(2), of v]
    have o: "resultCh (send c0 v) @ sendq (send c0 v) = (resultCh c0 @ sendq c0) @ [v]"
      and q: "sendq (send c0 v) \<noteq> [] \<longrightarrow> 64 \<le> length (resultCh (send c0 v))"
      by blast+
    have d: "ch_closed (doneOnce (send c0 v)) = once_done (doneOnce (send c0 v))"
      using Cons.prems(1) by (simp add: doneOnce_send)
    from Cons.IH [OF d q] o CallSend show ?thesis
      by (simp add: doneCh_def doneOnce_send)
  next
    case CallMarkDone
    let ?c1 = "c0\<lparr>doneOnce := \<lparr>ch_closed = True, once_done = True\<rparr>\<rparr>"
    have m: "markDone c0 = Inr ?c1"
      using Cons.prems(1) by (rule markDone_guarded)
    have d: "ch_closed (doneOnce ?c1) = once_done (doneOnce ?c1)" by simp
    have q: "sendq ?c1 \<noteq> [] \<longrightarrow> 64 \<le> length (resultCh ?c1)"
      using Cons.prems(2) by simp
    from Cons.IH [OF d q] m CallMarkDone show ?thesis
      by (simp add: doneCh_def)
  qed
qed

text \<open>
  Claim C4, as the code has it. Take any collector state reached from a new collector by
  calls of \<open>send\<close> and \<open>markDone\<close>: no call panics, and the completion channel is closed
  exactly when \<open>markDone\<close> was called. A further \<open>markDone\<close> succeeds, leaves the buffered
  events alone, and once the channel is closed it changes nothing at all. Whenever the
  completion signal has fired or the deadline scope is done, \<open>wait\<close> returns every page
  and every entry that was sent, in the order sent, and leaves the channel empty. Its
  flag is false when the signal has fired and the deadline scope is not done at the
  \<open>select\<close>, and true when the deadline scope is done and the signal has not fired; with
  both ready the \<open>select\<close> may take either case, and the flag is true exactly when it
  takes the deadline, even though the signal fired first. With neither ready \<open>wait\<close>
  blocks.
\<close>

theorem collector_wait_keeps_events:
  "\<exists>c c1. coll_calls newCollector calls = Inr c
     \<and> doneCh c = (CallMarkDone \<in> set calls)
     \<and> markDone c = Inr c1 \<and> doneCh c1 \<and> markDone c1 = Inr c1
     \<and> resultCh c1 = resultCh c \<and> sendq c1 = sendq c
     \<and> (doneCh c \<longrightarrow> c1 = c)
     \<and> (doneCh c \<and> \<not> expired \<longrightarrow>
          wait c expired pick =
            Some ((pages_of (sent_events calls), entries_of (sent_events calls), False),
                  c\<lparr>resultCh := [], sendq := []\<rparr>))
     \<and> (\<not> doneCh c \<and> expired \<longrightarrow>
          wait c expired pick =
            Some ((pages_of (sent_events calls), entries_of (sent_events calls), True),
                  c\<lparr>resultCh := [], sendq := []\<rparr>))
     \<and> (doneCh c \<and> expired \<longrightarrow>
          wait c expired pick =
            Some ((pages_of (sent_events calls), entries_of (sent_events calls),
                   pick = CtxDone),
                  c\<lparr>resultCh := [], sendq := []\<rparr>))
     \<and> (\<not> doneCh c \<and> \<not> expired \<longrightarrow> wait c expired pick = None)"
proof -
  have i0: "ch_closed (doneOnce newCollector) = once_done (doneOnce newCollector)"
    by (simp add: newCollector_def)
  have q0: "sendq newCollector \<noteq> [] \<longrightarrow> 64 \<le> length (resultCh newCollector)"
    by (simp add: newCollector_def)
  from coll_calls_reach [OF i0 q0, of calls]
  obtain c where r: "coll_calls newCollector calls = Inr c"
    and i: "ch_closed (doneOnce c) = once_done (doneOnce c)"
    and q: "sendq c \<noteq> [] \<longrightarrow> 64 \<le> length (resultCh c)"
    and e: "resultCh c @ sendq c = sent_events calls"
    and d: "doneCh c = (CallMarkDone \<in> set calls)"
    by (auto simp: newCollector_def doneCh_def)
  let ?c1 = "c\<lparr>doneOnce := \<lparr>ch_closed = True, once_done = True\<rparr>\<rparr>"
  have m: "markDone c = Inr ?c1" using i by (rule markDone_guarded)
  have m1: "markDone ?c1 = Inr ?c1" by (simp add: markDone_def close_def)
  have same: "doneCh c \<longrightarrow> ?c1 = c" using i by (simp add: doneCh_def)
  have q': "sendq c \<noteq> [] \<longrightarrow> resultCh c \<noteq> []" using q by auto
  have w1: "doneCh c \<and> \<not> expired \<longrightarrow>
          wait c expired pick =
            Some ((pages_of (sent_events calls), entries_of (sent_events calls), False),
                  c\<lparr>resultCh := [], sendq := []\<rparr>)"
    using wait_released [OF q', of expired pick] e by auto
  have w2: "\<not> doneCh c \<and> expired \<longrightarrow>
          wait c expired pick =
            Some ((pages_of (sent_events calls), entries_of (sent_events calls), True),
                  c\<lparr>resultCh := [], sendq := []\<rparr>)"
    using wait_released [OF q', of expired pick] e by auto
  have w3: "doneCh c \<and> expired \<longrightarrow>
          wait c expired pick =
            Some ((pages_of (sent_events calls), entries_of (sent_events calls),
                   pick = CtxDone),
                  c\<lparr>resultCh := [], sendq := []\<rparr>)"
    using wait_released [OF q', of expired pick] e by auto
  have w4: "\<not> doneCh c \<and> \<not> expired \<longrightarrow> wait c expired pick = None"
    by (simp add: wait_def select_ready_def)
  have "coll_calls newCollector calls = Inr c
     \<and> doneCh c = (CallMarkDone \<in> set calls)
     \<and> markDone c = Inr ?c1 \<and> doneCh ?c1 \<and> markDone ?c1 = Inr ?c1
     \<and> resultCh ?c1 = resultCh c \<and> sendq ?c1 = sendq c
     \<and> (doneCh c \<longrightarrow> ?c1 = c)"
    using r d m m1 same by (simp add: doneCh_def)
  with w1 w2 w3 w4 show ?thesis by blast
qed

theorem collector_wait_keeps_events_witness:
  "(\<exists>c. coll_calls newCollector
           [CallSend (EvEntry \<lparr>request = ex_request, response = ex_response [] None\<rparr>),
            CallMarkDone, CallMarkDone] = Inr c
        \<and> doneCh c \<and> markDone c = Inr c
        \<and> wait c False CtxDone =
            Some (([], [\<lparr>request = ex_request, response = ex_response [] None\<rparr>], False),
                  c\<lparr>resultCh := [], sendq := []\<rparr>)
        \<and> wait c True CtxDone =
            Some (([], [\<lparr>request = ex_request, response = ex_response [] None\<rparr>], True),
                  c\<lparr>resultCh := [], sendq := []\<rparr>)
        \<and> wait c True DoneClosed =
            Some (([], [\<lparr>request = ex_request, response = ex_response [] None\<rparr>], False),
                  c\<lparr>resultCh := [], sendq := []\<rparr>))
   \<and> (\<exists>c. coll_calls newCollector
           [CallSend (EvEntry \<lparr>request = ex_request, response = ex_response [] None\<rparr>)] = Inr c
        \<and> \<not> doneCh c
        \<and> wait c True DoneClosed =
            Some (([], [\<lparr>request = ex_request, response = ex_response [] None\<rparr>], True),
                  c\<lparr>resultCh := [], sendq := []\<rparr>)
        \<and> wait c False DoneClosed = None)"
proof -
  let ?e = "\<lparr>request = ex_request, response = ex_response [] None\<rparr>"
  let ?cs = "[CallSend (EvEntry ?e), CallMarkDone, CallMarkDone]"
  have ev: "pages_of (sent_events ?cs) = []" "entries_of (sent_events ?cs) = [?e]"
    by simp_all
  have md: "CallMarkDone \<in> set ?cs" by simp
  have det: "\<And>x y. coll_calls newCollector ?cs = Inr x \<Longrightarrow> coll_calls newCollector ?cs = Inr y
               \<Longrightarrow> x = y"
    by simp
  from collector_wait_keeps_events [of ?cs False CtxDone]
  obtain c c1 where a: "coll_calls newCollector ?cs = Inr c"
    and b: "doneCh c = (CallMarkDone \<in> set ?cs)"
    and m: "markDone c = Inr c1" and s: "doneCh c \<longrightarrow> c1 = c"
    and w: "doneCh c \<and> \<not> False \<longrightarrow>
          wait c False CtxDone =
            Some ((pages_of (sent_events ?cs), entries_of (sent_events ?cs), False),
                  c\<lparr>resultCh := [], sendq := []\<rparr>)"
    by blast
  from b md have dc: "doneCh c" by blast
  with s m have mc: "markDone c = Inr c" by simp
  from w dc have wc: "wait c False CtxDone =
            Some (([], [?e], False), c\<lparr>resultCh := [], sendq := []\<rparr>)"
    unfolding ev by blast
  from collector_wait_keeps_events [of ?cs True CtxDone]
  obtain c2 where a2: "coll_calls newCollector ?cs = Inr c2"
    and w2: "doneCh c2 \<and> True \<longrightarrow>
          wait c2 True CtxDone =
            Some ((pages_of (sent_events ?cs), entries_of (sent_events ?cs), CtxDone = CtxDone),
                  c2\<lparr>resultCh := [], sendq := []\<rparr>)"
    by blast
  from det [OF a2 a] have "c2 = c" .
  with w2 dc have wb: "wait c True CtxDone =
            Some (([], [?e], True), c\<lparr>resultCh := [], sendq := []\<rparr>)"
    unfolding ev by simp
  from collector_wait_keeps_events [of ?cs True DoneClosed]
  obtain c3 where a3: "coll_calls newCollector ?cs = Inr c3"
    and w3: "doneCh c3 \<and> True \<longrightarrow>
          wait c3 True DoneClosed =
            Some ((pages_of (sent_events ?cs), entries_of (sent_events ?cs),
                   DoneClosed = CtxDone),
                  c3\<lparr>resultCh := [], sendq := []\<rparr>)"
    by blast
  from det [OF a3 a] have "c3 = c" .
  with w3 dc have wd: "wait c True DoneClosed =
            Some (([], [?e], False), c\<lparr>resultCh := [], sendq := []\<rparr>)"
    unfolding ev by simp
  let ?cs' = "[CallSend (EvEntry ?e)]"
  have ev': "pages_of (sent_events ?cs') = []" "entries_of (sent_events ?cs') = [?e]"
    by simp_all
  have det': "\<And>x y. coll_calls newCollector ?cs' = Inr x
                \<Longrightarrow> coll_calls newCollector ?cs' = Inr y \<Longrightarrow> x = y"
    by simp
  from collector_wait_keeps_events [of ?cs' True DoneClosed]
  obtain c' where a': "coll_calls newCollector ?cs' = Inr c'"
    and b': "doneCh c' = (CallMarkDone \<in> set ?cs')"
    and w': "\<not> doneCh c' \<and> True \<longrightarrow>
          wait c' True DoneClosed =
            Some ((pages_of (sent_events ?cs'), entries_of (sent_events ?cs'), True),
                  c'\<lparr>resultCh := [], sendq := []\<rparr>)"
    by blast
  from b' have nd: "\<not> doneCh c'" by simp
  with w' have wc': "wait c' True DoneClosed =
            Some (([], [?e], True), c'\<lparr>resultCh := [], sendq := []\<rparr>)"
    unfolding ev' by simp
  from collector_wait_keeps_events [of ?cs' False DoneClosed]
  obtain c4 where a4: "coll_calls newCollector ?cs' = Inr c4"
    and w4: "\<not> doneCh c4 \<and> \<not> False \<longrightarrow> wait c4 False DoneClosed = None"
    by blast
  from det' [OF a4 a'] have "c4 = c'" .
  with w4 nd have wn: "wait c' False DoneClosed = None" by simp
  from a dc mc wc wb wd a' nd wc' wn show ?thesis by blast
qed

text \<open>
  Claim C4 as stated fails in the state where the completion signal has fired and the
  deadline scope is done as well: after one entry is sent and \<open>markDone\<close> is called,
  a \<open>wait\<close> on an expired context whose \<open>select\<close> takes the context returns
  \<open>timedOut = true\<close> although the signal fired first; the entry is still returned.
\<close>

theorem wait_both_ready_may_time_out:
  "coll_calls newCollector
     [CallSend (EvEntry \<lparr>request = ex_request, response = ex_response [] None\<rparr>), CallMarkDone]
     = Inr \<lparr>resultCh = [EvEntry \<lparr>request = ex_request, response = ex_response [] None\<rparr>],
            sendq = [], doneOnce = \<lparr>ch_closed = True, once_done = True\<rparr>\<rparr>
   \<and> doneCh \<lparr>resultCh = [EvEntry \<lparr>request = ex_request, response = ex_response [] None\<rparr>],
              sendq = [], doneOnce = \<lparr>ch_closed = True, once_done = True\<rparr>\<rparr>
   \<and> wait \<lparr>resultCh = [EvEntry \<lparr>request = ex_request, response = ex_response [] None\<rparr>],
            sendq = [], doneOnce = \<lparr>ch_closed = True, once_done = True\<rparr>\<rparr> True CtxDone
       = Some (([], [\<lparr>request = ex_request, response = ex_response [] None\<rparr>], True),
               \<lparr>resultCh = [], sendq = [], doneOnce = \<lparr>ch_closed = True, once_done = True\<rparr>\<rparr>)"
  by (simp add: newCollector_def send_def markDone_def close_def doneCh_def wait_def
        select_ready_def wait_woken_def drain_all)

section \<open>The lifecycle of an operation\<close>

lemma Run_pending:
  assumes "s id' = Some op"
  shows "\<exists>s1 op1 op2.
           MarkRunning s id' t1 = (None, s1)
           \<and> s1 = s(id' \<mapsto> op1) \<and> op_Status op1 = StatusRunning
           \<and> Run env id' t1 t2 s = s(id' \<mapsto> op2)
           \<and> (op_Status op2 = StatusComplete \<or> op_Status op2 = StatusFailed)
           \<and> ((\<exists>e. Run env id' t1 t2 s = snd (MarkFailed s1 id' e t2))
                \<or> (\<exists>ttfb timedOut artefacts.
                      Run env id' t1 t2 s = snd (MarkComplete s1 id' ttfb timedOut artefacts t2)))"
proof -
  let ?op1 = "op\<lparr>op_Status := StatusRunning, UpdatedAt := t1\<rparr>"
  let ?s1 = "s(id' \<mapsto> ?op1)"
  have m: "MarkRunning s id' t1 = (None, ?s1)"
    using assms by (simp add: MarkRunning_def update_def)
  have k: "?s1 id' = Some ?op1" by simp
  have f: "\<And>e. snd (MarkFailed ?s1 id' e t2)
             = s(id' \<mapsto> ?op1\<lparr>op_Status := StatusFailed, Error := Error_text e, UpdatedAt := t2\<rparr>)"
    by (simp add: MarkFailed_def update_def)
  have c: "\<And>ttfb timedOut artefacts. snd (MarkComplete ?s1 id' ttfb timedOut artefacts t2)
             = s(id' \<mapsto> ?op1\<lparr>op_Status := StatusComplete, op_TTFB := ttfb,
                   op_TimedOut := timedOut, Artefacts := artefacts, UpdatedAt := t2\<rparr>)"
    by (simp add: MarkComplete_def update_def)
  have o1: "op_Status ?op1 = StatusRunning" by simp
  show ?thesis
  proof (cases "capture_result env")
    case (Inl err)
    let ?op2 = "?op1\<lparr>op_Status := StatusFailed,
               Error := Error_text (Wrapped ''capture: '' err), UpdatedAt := t2\<rparr>"
    from Inl have r: "Run env id' t1 t2 s = snd (MarkFailed ?s1 id' (Wrapped ''capture: '' err) t2)"
      using m by (simp add: Run_def)
    then have w: "\<exists>e. Run env id' t1 t2 s = snd (MarkFailed ?s1 id' e t2)" by blast
    have r2: "Run env id' t1 t2 s = s(id' \<mapsto> ?op2)"
      unfolding r f by simp
    have o2: "op_Status ?op2 = StatusComplete \<or> op_Status ?op2 = StatusFailed" by simp
    from m o1 r2 o2 w show ?thesis by blast
  next
    case (Inr result)
    show ?thesis
    proof (cases "uploadArtefacts env id' result")
      case (Inl err)
      let ?op2 = "?op1\<lparr>op_Status := StatusFailed,
                 Error := Error_text (Wrapped ''upload: '' err), UpdatedAt := t2\<rparr>"
      from Inl have r: "Run env id' t1 t2 s = snd (MarkFailed ?s1 id' (Wrapped ''upload: '' err) t2)"
        using m Inr by (simp add: Run_def)
      then have w: "\<exists>e. Run env id' t1 t2 s = snd (MarkFailed ?s1 id' e t2)" by blast
      have r2: "Run env id' t1 t2 s = s(id' \<mapsto> ?op2)"
        unfolding r f by simp
      have o2: "op_Status ?op2 = StatusComplete \<or> op_Status ?op2 = StatusFailed" by simp
      from m o1 r2 o2 w show ?thesis by blast
    next
      case (Inr artefacts)
      let ?op2 = "?op1\<lparr>op_Status := StatusComplete, op_TTFB := TTFB result,
                   op_TimedOut := TimedOut result, Artefacts := artefacts, UpdatedAt := t2\<rparr>"
      from Inr have r: "Run env id' t1 t2 s
          = snd (MarkComplete ?s1 id' (TTFB result) (TimedOut result) artefacts t2)"
        using m \<open>capture_result env = Inr result\<close> by (simp add: Run_def)
      then have w: "\<exists>ttfb timedOut artefacts.
                      Run env id' t1 t2 s = snd (MarkComplete ?s1 id' ttfb timedOut artefacts t2)"
        by blast
      have r2: "Run env id' t1 t2 s = s(id' \<mapsto> ?op2)"
        unfolding r c by simp
      have o2: "op_Status ?op2 = StatusComplete \<or> op_Status ?op2 = StatusFailed" by simp
      from m o1 r2 o2 w show ?thesis by blast
    qed
  qed
qed

text \<open>
  Claim C5, as the code has it. The store does not look at the current status: on a
  known identifier \<open>MarkRunning\<close>, \<open>MarkComplete\<close> and \<open>MarkFailed\<close> set the status to
  running, complete and failed whatever it was. The forward edges are those the worker
  takes: on a pending operation \<open>Run\<close> first marks it running and then, exactly once,
  complete or failed, so its status moves pending to running to complete or failed and
  every other operation stays as it was; on an unknown identifier \<open>Run\<close> changes nothing.
\<close>

theorem worker_follows_lifecycle:
  "(s id' = Some op \<longrightarrow>
      status_of (snd (MarkRunning s id' now)) id' = Some StatusRunning
      \<and> status_of (snd (MarkComplete s id' ttfb timedOut artefacts now)) id' = Some StatusComplete
      \<and> status_of (snd (MarkFailed s id' err now)) id' = Some StatusFailed)
   \<and> (status_of s id' = Some StatusPending \<longrightarrow>
      (\<exists>s1 st. MarkRunning s id' t1 = (None, s1)
         \<and> status_of s1 id' = Some StatusRunning
         \<and> ((\<exists>e. Run env id' t1 t2 s = snd (MarkFailed s1 id' e t2))
              \<or> (\<exists>ttfb timedOut artefacts.
                    Run env id' t1 t2 s = snd (MarkComplete s1 id' ttfb timedOut artefacts t2)))
         \<and> status_of (Run env id' t1 t2 s) id' = Some st
         \<and> (st = StatusComplete \<or> st = StatusFailed)
         \<and> forward_edge StatusPending StatusRunning \<and> forward_edge StatusRunning st
         \<and> (\<forall>j. j \<noteq> id' \<longrightarrow> Run env id' t1 t2 s j = s j)))
   \<and> (s id' = None \<longrightarrow> Run env id' t1 t2 s = s)"
proof (intro conjI impI)
  assume "s id' = Some op"
  then show "status_of (snd (MarkRunning s id' now)) id' = Some StatusRunning"
    and "status_of (snd (MarkComplete s id' ttfb timedOut artefacts now)) id' = Some StatusComplete"
    and "status_of (snd (MarkFailed s id' err now)) id' = Some StatusFailed"
    by (simp_all add: MarkRunning_def MarkComplete_def MarkFailed_def update_def status_of_def)
next
  assume "status_of s id' = Some StatusPending"
  then obtain op0 where k: "s id' = Some op0"
    by (auto simp: status_of_def)
  from Run_pending [where s = s and id' = id' and op = op0 and ?t1.0 = t1 and env = env
      and ?t2.0 = t2, OF k]
  obtain s1 op1 op2 where m: "MarkRunning s id' t1 = (None, s1)"
    and s1: "s1 = s(id' \<mapsto> op1)" and r1: "op_Status op1 = StatusRunning"
    and r: "Run env id' t1 t2 s = s(id' \<mapsto> op2)"
    and t: "op_Status op2 = StatusComplete \<or> op_Status op2 = StatusFailed"
    and w: "(\<exists>e. Run env id' t1 t2 s = snd (MarkFailed s1 id' e t2))
                \<or> (\<exists>ttfb timedOut artefacts.
                      Run env id' t1 t2 s = snd (MarkComplete s1 id' ttfb timedOut artefacts t2))"
    by blast
  have a: "status_of s1 id' = Some StatusRunning"
    using s1 r1 by (simp add: status_of_def)
  have b: "status_of (Run env id' t1 t2 s) id' = Some (op_Status op2)"
    using r by (simp add: status_of_def)
  have e: "forward_edge StatusRunning (op_Status op2)"
    using t by auto
  have o: "\<forall>j. j \<noteq> id' \<longrightarrow> Run env id' t1 t2 s j = s j"
    using r by simp
  from m a w b t e o
  show "\<exists>s1 st. MarkRunning s id' t1 = (None, s1)
         \<and> status_of s1 id' = Some StatusRunning
         \<and> ((\<exists>e. Run env id' t1 t2 s = snd (MarkFailed s1 id' e t2))
              \<or> (\<exists>ttfb timedOut artefacts.
                    Run env id' t1 t2 s = snd (MarkComplete s1 id' ttfb timedOut artefacts t2)))
         \<and> status_of (Run env id' t1 t2 s) id' = Some st
         \<and> (st = StatusComplete \<or> st = StatusFailed)
         \<and> forward_edge StatusPending StatusRunning \<and> forward_edge StatusRunning st
         \<and> (\<forall>j. j \<noteq> id' \<longrightarrow> Run env id' t1 t2 s j = s j)"
    by (intro exI [of _ s1] exI [of _ "op_Status op2"]) simp
next
  assume "s id' = None"
  then show "Run env id' t1 t2 s = s"
    by (simp add: Run_def MarkRunning_def update_def)
qed

theorem worker_follows_lifecycle_witness:
  "status_of (NewMemoryStore(''op1'' \<mapsto> ex_operation StatusPending)) ''op1'' = Some StatusPending
   \<and> status_of (snd (MarkRunning (NewMemoryStore(''op1'' \<mapsto> ex_operation StatusPending)) ''op1'' 2))
        ''op1'' = Some StatusRunning
   \<and> status_of (Run ex_worker_env ''op1'' 2 3 (NewMemoryStore(''op1'' \<mapsto> ex_operation StatusPending)))
        ''op1'' = Some StatusFailed
   \<and> Run ex_worker_env ''op2'' 2 3 (NewMemoryStore(''op1'' \<mapsto> ex_operation StatusPending))
       = NewMemoryStore(''op1'' \<mapsto> ex_operation StatusPending)"
proof -
  let ?s = "NewMemoryStore(''op1'' \<mapsto> ex_operation StatusPending)"
  have p: "status_of ?s ''op1'' = Some StatusPending"
    by (simp add: status_of_def ex_operation_def)
  have k: "?s ''op1'' = Some (ex_operation StatusPending)" by simp
  have u: "?s ''op2'' = None" by (simp add: NewMemoryStore_def)
  from worker_follows_lifecycle
         [where s = ?s and id' = "''op1''" and op = "ex_operation StatusPending" and now = 2
            and ?t1.0 = 2 and ?t2.0 = 3 and env = ex_worker_env] p k
  have a: "status_of (snd (MarkRunning ?s ''op1'' 2)) ''op1'' = Some StatusRunning"
    and "\<exists>s1 st. MarkRunning ?s ''op1'' 2 = (None, s1)
         \<and> status_of (Run ex_worker_env ''op1'' 2 3 ?s) ''op1'' = Some st
         \<and> (st = StatusComplete \<or> st = StatusFailed)"
    by blast+
  then obtain st where b: "status_of (Run ex_worker_env ''op1'' 2 3 ?s) ''op1'' = Some st"
    and "st = StatusComplete \<or> st = StatusFailed"
    by blast
  moreover have "status_of (Run ex_worker_env ''op1'' 2 3 ?s) ''op1'' \<noteq> Some StatusComplete"
    by (simp add: Run_def MarkRunning_def MarkFailed_def update_def ex_worker_env_def
          status_of_def)
  ultimately have c: "status_of (Run ex_worker_env ''op1'' 2 3 ?s) ''op1'' = Some StatusFailed"
    by auto
  from worker_follows_lifecycle
         [where s = ?s and id' = "''op2''" and ?t1.0 = 2 and ?t2.0 = 3 and env = ex_worker_env] u
  have d: "Run ex_worker_env ''op2'' 2 3 ?s = ?s"
    by blast
  from p a c d show ?thesis by blast
qed

text \<open>
  Claim C5 as stated fails on the store: after \<open>Create\<close>, \<open>MarkRunning\<close> and \<open>MarkComplete\<close>
  a further \<open>MarkRunning\<close> moves the completed operation back to running, and complete
  to running is not a forward edge.
\<close>

theorem store_leaves_terminal_status:
  "status_history NewMemoryStore ''op1''
     [CallCreate ''op1'' 1 1 ''https://example.com/'', CallMarkRunning ''op1'' 2,
      CallMarkComplete ''op1'' 0 False [] 3, CallMarkRunning ''op1'' 4]
     = [None, Some StatusPending, Some StatusRunning, Some StatusComplete, Some StatusRunning]
   \<and> \<not> forward_edge StatusComplete StatusRunning"
  by (simp add: NewMemoryStore_def Create_def MarkRunning_def MarkComplete_def update_def
        status_of_def Let_def)

section \<open>Screenshots come back in stage order\<close>

lemma set_insert_less: "set (insert_less lt x xs) = insert x (set xs)"
  by (induction xs) auto

lemma mset_insert_less: "mset (insert_less lt x xs) = add_mset x (mset xs)"
  by (induction xs) simp_all

lemma sorted_insert_less:
  fixes k :: "'a \<Rightarrow> int"
  assumes "sorted (map k xs)"
  shows "sorted (map k (insert_less (\<lambda>a b. k a < k b) x xs))"
  using assms
proof (induction xs)
  case Nil
  then show ?case by simp
next
  case (Cons y ys)
  show ?case
  proof (cases "k x < k y")
    case True
    with Cons.prems show ?thesis by auto
  next
    case False
    from Cons.prems have "sorted (map k ys)" and le: "\<forall>z \<in> set ys. k y \<le> k z"
      by simp_all
    with Cons.IH have "sorted (map k (insert_less (\<lambda>a b. k a < k b) x ys))" by simp
    with False le show ?thesis by (simp add: set_insert_less)
  qed
qed

lemma foldl_insert_less_sorted:
  fixes k :: "'a \<Rightarrow> int"
  assumes "sorted (map k acc)"
  shows "sorted (map k (foldl (\<lambda>p x. insert_less (\<lambda>a b. k a < k b) x p) acc xs))"
  using assms by (induction xs arbitrary: acc) (simp_all add: sorted_insert_less)

lemma foldl_insert_less_mset:
  "mset (foldl (\<lambda>p x. insert_less lt x p) acc xs) = mset acc + mset xs"
  by (induction xs arbitrary: acc) (simp_all add: mset_insert_less)

lemma sort_Slice_sorted:
  fixes k :: "'a \<Rightarrow> int"
  shows "sorted (map k (sort_Slice (\<lambda>a b. k a < k b) xs))"
  unfolding sort_Slice_def by (rule foldl_insert_less_sorted) simp

lemma sort_Slice_mset: "mset (sort_Slice lt xs) = mset xs"
  by (simp add: sort_Slice_def foldl_insert_less_mset)

lemma results_foldl_capture_body:
  "mset (results (foldl capture_body sc fs))
     = mset (results sc) + mset (results (foldl capture_body (sc\<lparr>results := []\<rparr>) fs))"
proof (induction fs arbitrary: sc)
  case Nil
  then show ?case by simp
next
  case (Cons f fs)
  have a: "mset (results (foldl capture_body (capture_body sc f) fs))
        = mset (results (capture_body sc f))
          + mset (results (foldl capture_body ((capture_body sc f)\<lparr>results := []\<rparr>) fs))"
    by (rule Cons.IH)
  have b: "mset (results (foldl capture_body (capture_body (sc\<lparr>results := []\<rparr>) f) fs))
        = mset (results (capture_body (sc\<lparr>results := []\<rparr>) f))
          + mset (results (foldl capture_body
                ((capture_body (sc\<lparr>results := []\<rparr>) f)\<lparr>results := []\<rparr>) fs))"
    by (rule Cons.IH)
  have c: "(capture_body (sc\<lparr>results := []\<rparr>) f)\<lparr>results := []\<rparr>
             = (capture_body sc f)\<lparr>results := []\<rparr>"
    by (simp add: capture_body_def split: option.splits)
  have d: "mset (results (capture_body sc f))
             = mset (results sc) + mset (results (capture_body (sc\<lparr>results := []\<rparr>) f))"
    by (simp add: capture_body_def split: option.splits)
  show ?case using a b c d by simp
qed

lemma results_foldl_capture_body_perm:
  assumes "mset fs' = mset fs"
  shows "mset (results (foldl capture_body sc fs')) = mset (results (foldl capture_body sc fs))"
  using assms
proof (induction fs arbitrary: fs' sc)
  case Nil
  then show ?case by simp
next
  case (Cons f fs)
  then have "f \<in> set fs'" by (metis list.set_intros(1) mset_eq_setD)
  then obtain us vs where s: "fs' = us @ f # vs" by (meson split_list)
  with Cons.prems have p: "mset (us @ vs) = mset fs" by simp
  have one: "\<And>g sc. mset (results (capture_body sc g))
             = mset (results sc) + mset (results (capture_body (sc\<lparr>results := []\<rparr>) g))"
    by (simp add: capture_body_def split: option.splits)
  have e: "\<And>g sc. (capture_body sc g)\<lparr>results := []\<rparr> = sc\<lparr>results := []\<rparr>"
    by (simp add: capture_body_def split: option.splits)
  have emp: "\<And>gs sc. (foldl capture_body sc gs)\<lparr>results := []\<rparr> = sc\<lparr>results := []\<rparr>"
  proof -
    fix gs :: "(LifecycleStage \<times> (Time \<times> string) option) list" and sc :: screenshotCollector
    show "(foldl capture_body sc gs)\<lparr>results := []\<rparr> = sc\<lparr>results := []\<rparr>"
      by (induction gs arbitrary: sc) (simp_all add: e)
  qed
  let ?z = "sc\<lparr>results := []\<rparr>"
  have l: "mset (results (foldl capture_body sc (us @ f # vs)))
        = mset (results sc) + mset (results (foldl capture_body ?z us))
          + mset (results (capture_body ?z f)) + mset (results (foldl capture_body ?z vs))"
  proof -
    have "mset (results (foldl capture_body sc (us @ f # vs)))
        = mset (results (capture_body (foldl capture_body sc us) f))
          + mset (results (foldl capture_body ?z vs))"
      using results_foldl_capture_body [of "capture_body (foldl capture_body sc us) f" vs]
      by (simp add: e emp)
    also have "mset (results (capture_body (foldl capture_body sc us) f))
        = mset (results (foldl capture_body sc us)) + mset (results (capture_body ?z f))"
      using one [of "foldl capture_body sc us" f] by (simp add: emp)
    also have "mset (results (foldl capture_body sc us))
        = mset (results sc) + mset (results (foldl capture_body ?z us))"
      by (rule results_foldl_capture_body)
    finally show ?thesis by simp
  qed
  have r: "mset (results (foldl capture_body sc (f # fs)))
        = mset (results sc) + mset (results (capture_body ?z f))
          + mset (results (foldl capture_body ?z fs))"
  proof -
    have "mset (results (foldl capture_body sc (f # fs)))
        = mset (results (capture_body sc f)) + mset (results (foldl capture_body ?z fs))"
      using results_foldl_capture_body [of "capture_body sc f" fs] by (simp add: e)
    then show ?thesis using one [of sc f] by simp
  qed
  have m: "mset (results (foldl capture_body ?z (us @ vs)))
        = mset (results (foldl capture_body ?z fs))"
    using Cons.IH [OF p] .
  have "mset (results (foldl capture_body ?z (us @ vs)))
        = mset (results (foldl capture_body ?z us)) + mset (results (foldl capture_body ?z vs))"
    using results_foldl_capture_body [of "foldl capture_body ?z us" vs] by (simp add: emp)
  with l r m s show ?case by simp
qed

lemma inj_lifecycleOrder: "inj lifecycleOrder"
proof (rule injI)
  fix a b assume "lifecycleOrder a = lifecycleOrder b"
  then show "a = b" by (cases a; cases b) simp_all
qed

text \<open>
  Claim C6. Whatever the order in which the capture goroutines finish and append, the
  list \<open>wait\<close> returns is sorted ascending by the canonical stage order (load, then
  first contentful paint, then network idle); it is a rearrangement of the accumulated
  screenshots, and two completion orders of the same captures give the same sequence of
  stages.
\<close>

theorem screenshots_sorted_by_stage:
  "sorted (map (lifecycleOrder \<circ> Stage) (fst (sc_wait sc finished)))
   \<and> mset (fst (sc_wait sc finished)) = mset (results (foldl capture_body sc finished))
   \<and> (mset finished' = mset finished \<longrightarrow>
        map Stage (fst (sc_wait sc finished')) = map Stage (fst (sc_wait sc finished)))"
proof (intro conjI impI)
  let ?k = "lifecycleOrder \<circ> Stage"
  have lt: "(\<lambda>a b. lifecycleOrder (Stage a) < lifecycleOrder (Stage b)) = (\<lambda>a b. ?k a < ?k b)"
    by simp
  have w: "\<And>fs. fst (sc_wait sc fs)
             = sort_Slice (\<lambda>a b. ?k a < ?k b) (results (foldl capture_body sc fs))"
    unfolding sc_wait_def Let_def lt by simp
  show s: "sorted (map ?k (fst (sc_wait sc finished)))"
    unfolding w by (rule sort_Slice_sorted)
  show m: "mset (fst (sc_wait sc finished)) = mset (results (foldl capture_body sc finished))"
    unfolding w by (rule sort_Slice_mset)
  assume p: "mset finished' = mset finished"
  have s': "sorted (map ?k (fst (sc_wait sc finished')))"
    unfolding w by (rule sort_Slice_sorted)
  have "mset (fst (sc_wait sc finished')) = mset (fst (sc_wait sc finished))"
    unfolding w sort_Slice_mset using results_foldl_capture_body_perm [OF p] .
  then have "mset (map ?k (fst (sc_wait sc finished'))) = mset (map ?k (fst (sc_wait sc finished)))"
    by simp
  with s s' have "map ?k (fst (sc_wait sc finished')) = map ?k (fst (sc_wait sc finished))"
    by (metis properties_for_sort)
  then have "map lifecycleOrder (map Stage (fst (sc_wait sc finished')))
           = map lifecycleOrder (map Stage (fst (sc_wait sc finished)))"
    by (simp only: map_map)
  then show "map Stage (fst (sc_wait sc finished')) = map Stage (fst (sc_wait sc finished))"
    by (simp only: inj_map_eq_map [OF inj_lifecycleOrder])
qed

theorem screenshots_sorted_by_stage_witness:
  "mset [ex_shot StageNetworkIdle, ex_shot StageDocumentLoad, ex_shot StageFirstContentfulPaint]
     = mset [ex_shot StageDocumentLoad, ex_shot StageFirstContentfulPaint, ex_shot StageNetworkIdle]
   \<and> map Stage (fst (sc_wait newScreenshotCollector
        [ex_shot StageNetworkIdle, ex_shot StageDocumentLoad, ex_shot StageFirstContentfulPaint]))
       = [StageDocumentLoad, StageFirstContentfulPaint, StageNetworkIdle]"
proof -
  have p: "mset [ex_shot StageNetworkIdle, ex_shot StageDocumentLoad,
                 ex_shot StageFirstContentfulPaint]
     = mset [ex_shot StageDocumentLoad, ex_shot StageFirstContentfulPaint, ex_shot StageNetworkIdle]"
    by simp
  have v: "map Stage (fst (sc_wait newScreenshotCollector
        [ex_shot StageDocumentLoad, ex_shot StageFirstContentfulPaint, ex_shot StageNetworkIdle]))
       = [StageDocumentLoad, StageFirstContentfulPaint, StageNetworkIdle]"
    by (simp add: sc_wait_def capture_body_def ex_shot_def newScreenshotCollector_def
          sort_Slice_def Let_def)
  from screenshots_sorted_by_stage
         [of newScreenshotCollector
             "[ex_shot StageDocumentLoad, ex_shot StageFirstContentfulPaint,
               ex_shot StageNetworkIdle]"
             "[ex_shot StageNetworkIdle, ex_shot StageDocumentLoad,
               ex_shot StageFirstContentfulPaint]"] p v
  show ?thesis by simp
qed

end
